theory Spec2Isabelle
  imports Complex_Main
begin

section \<open>Python values used by \<open>my_model_selectors.py\<close>\<close>

text \<open>
  The exceptions that can arise inside the selectors.  \<open>TrainingFailure\<close> and
  \<open>ScoringFailure\<close> stand for whatever \<open>GaussianHMM.fit\<close> and \<open>GaussianHMM.score\<close>
  raise; the code never inspects the exception, it only catches it (bare \<open>except:\<close>) or
  lets it escape.
\<close>

datatype exn =
    KeyError | IndexError | ValueError | AssertionError | StatisticsError | NameError
  | AttributeError | OverflowError | TypeError | TrainingFailure | ScoringFailure

text \<open>
  A Python float (an IEEE 754 double; \<open>numpy.float64\<close> is the same format): a finite
  value, the two infinities, or not-a-number.  A finite double is represented by the real
  number it denotes; the two zeros are not distinguished (they compare equal, and nothing
  here divides by zero).  Every comparison with \<open>NaN\<close> is false.
\<close>

datatype pyfloat = NaN | NInf | Fin real | PInf

fun f_lt :: "pyfloat \<Rightarrow> pyfloat \<Rightarrow> bool" where
  "f_lt NaN b = False"
| "f_lt a NaN = False"
| "f_lt a NInf = False"
| "f_lt NInf b = True"
| "f_lt PInf b = False"
| "f_lt (Fin x) PInf = True"
| "f_lt (Fin x) (Fin y) = (x < y)"

definition f_gt :: "pyfloat \<Rightarrow> pyfloat \<Rightarrow> bool" where
  "f_gt a b = f_lt b a"

text \<open>
  Rounding to the nearest double, ties to the even significand.  The unit in the last
  place of \<open>x\<close> is \<open>2 ^ e\<close> with \<open>e = max \<lfloor>log2 |x|\<rfloor> (-1022) - 52\<close> (53 bits of
  significand, subnormal numbers below \<open>2 ^ -1022\<close>); \<open>x\<close> is rounded to a multiple of
  it.  A result of magnitude \<open>2 ^ 1024\<close> or more is an overflow: the operation returns an
  infinity.
\<close>

definition round_half_even :: "real \<Rightarrow> int" where
  "round_half_even q =
     (let f = \<lfloor>q\<rfloor>; d = q - of_int f
      in if d < 1 / 2 then f else if 1 / 2 < d then f + 1 else if even f then f else f + 1)"

definition ulp_exponent :: "real \<Rightarrow> int" where
  "ulp_exponent x = max \<lfloor>log 2 \<bar>x\<bar>\<rfloor> (- 1022) - 52"

definition nearest_double :: "real \<Rightarrow> real" where
  "nearest_double x =
     (if x = 0 then 0
      else of_int (round_half_even (x / 2 powr of_int (ulp_exponent x))) *
           2 powr of_int (ulp_exponent x))"

definition fl :: "real \<Rightarrow> pyfloat" where
  "fl x =
     (let r = nearest_double x
      in if 2 ^ 1024 \<le> r then PInf else if r \<le> - (2 ^ 1024) then NInf else Fin r)"

text \<open>The arithmetic of floats: the exact result, rounded; the IEEE rules at the infinities.\<close>

fun f_neg :: "pyfloat \<Rightarrow> pyfloat" where
  "f_neg NaN = NaN"
| "f_neg NInf = PInf"
| "f_neg PInf = NInf"
| "f_neg (Fin x) = Fin (- x)"

fun f_add :: "pyfloat \<Rightarrow> pyfloat \<Rightarrow> pyfloat" where
  "f_add NaN b = NaN"
| "f_add a NaN = NaN"
| "f_add PInf NInf = NaN"
| "f_add NInf PInf = NaN"
| "f_add PInf b = PInf"
| "f_add a PInf = PInf"
| "f_add NInf b = NInf"
| "f_add a NInf = NInf"
| "f_add (Fin x) (Fin y) = fl (x + y)"

definition f_sub :: "pyfloat \<Rightarrow> pyfloat \<Rightarrow> pyfloat" where
  "f_sub a b = f_add a (f_neg b)"

text \<open>An infinity times a finite factor: \<open>NaN\<close> at zero, else the sign rule.\<close>

definition f_inf_times :: "pyfloat \<Rightarrow> real \<Rightarrow> pyfloat" where
  "f_inf_times v x = (if x = 0 then NaN else if 0 < x then v else f_neg v)"

fun f_mul :: "pyfloat \<Rightarrow> pyfloat \<Rightarrow> pyfloat" where
  "f_mul NaN b = NaN"
| "f_mul a NaN = NaN"
| "f_mul (Fin x) (Fin y) = fl (x * y)"
| "f_mul (Fin x) PInf = f_inf_times PInf x"
| "f_mul (Fin x) NInf = f_inf_times NInf x"
| "f_mul PInf (Fin y) = f_inf_times PInf y"
| "f_mul NInf (Fin y) = f_inf_times NInf y"
| "f_mul PInf PInf = PInf"
| "f_mul PInf NInf = NInf"
| "f_mul NInf PInf = NInf"
| "f_mul NInf NInf = PInf"

text \<open>A float divided by a positive count (the count of a list, exact as a double).\<close>

fun f_div_count :: "pyfloat \<Rightarrow> nat \<Rightarrow> pyfloat" where
  "f_div_count NaN n = NaN"
| "f_div_count PInf n = PInf"
| "f_div_count NInf n = NInf"
| "f_div_count (Fin x) n = fl (x / real n)"

text \<open>
  A Python \<open>int\<close> that meets a float in a product is converted first: rounded to the
  nearest double, \<open>OverflowError\<close> when it is too large.
\<close>

definition float_of_int :: "int \<Rightarrow> exn + pyfloat" where
  "float_of_int p =
     (case fl (of_int p) of Fin v \<Rightarrow> Inr (Fin v) | other \<Rightarrow> Inl OverflowError)"

text \<open>
  A value that a library hands over as a float is a double: a parameter that names a real
  number stands for the double nearest to it (as a decimal literal does in Python).
\<close>

definition as_float :: "pyfloat \<Rightarrow> pyfloat" where
  "as_float v = (case v of Fin x \<Rightarrow> fl x | other \<Rightarrow> other)"

text \<open>Summation of floats from left to right, every partial sum rounded.\<close>

definition f_sum :: "pyfloat list \<Rightarrow> pyfloat" where
  "f_sum xs = foldl f_add (Fin 0) xs"

text \<open>
  \<open>statistics.mean\<close>: raises \<open>StatisticsError\<close> on the empty list.  Otherwise the finite
  values are added exactly (as fractions) and the quotient by the count is rounded once;
  when an infinity or \<open>NaN\<close> occurs the result is the sum of those, which is again an
  infinity or \<open>NaN\<close>.
\<close>

fun exact_add :: "pyfloat \<Rightarrow> pyfloat \<Rightarrow> pyfloat" where
  "exact_add NaN b = NaN"
| "exact_add a NaN = NaN"
| "exact_add PInf NInf = NaN"
| "exact_add NInf PInf = NaN"
| "exact_add PInf b = PInf"
| "exact_add a PInf = PInf"
| "exact_add NInf b = NInf"
| "exact_add a NInf = NInf"
| "exact_add (Fin x) (Fin y) = Fin (x + y)"

definition statistics_mean :: "pyfloat list \<Rightarrow> exn + pyfloat" where
  "statistics_mean xs =
     (if xs = [] then Inl StatisticsError
      else Inr (case foldl exact_add (Fin 0) xs of
                  Fin t \<Rightarrow> fl (t / real (length xs))
                | other \<Rightarrow> other))"

section \<open>Data\<close>

text \<open>
  What the selectors hand to \<open>fit\<close> and \<open>score\<close>: a two-dimensional numpy array, given by
  its column count and its rows (the row count is the number of rows), or a plain Python
  list of rows.  A sequence is a list of feature rows.
\<close>

datatype arraylike = NdArray nat "real list list" | PyList "real list list"

type_synonym sequence = "real list list"

text \<open>
  \<open>X.shape\<close>: the row count and the column count of an array; a Python list has no
  attribute \<open>shape\<close>.
\<close>

fun shape :: "arraylike \<Rightarrow> exn + nat \<times> nat" where
  "shape (NdArray M rs) = Inr (length rs, M)"
| "shape (PyList rs) = Inl AttributeError"

section \<open>The external libraries\<close>

text \<open>
  A fitted \<open>GaussianHMM\<close> object.  The constructor call in \<open>base_model\<close> fixes every
  hyper-parameter but the state count and the seed, and \<open>fit\<close> re-initialises all
  parameters from the seed, so the fitted object is identified by the state count, the seed
  and the data of its last \<open>fit\<close>.
\<close>

record hmm =
  n_components :: int
  seed :: int
  trained_X :: arraylike
  trained_lengths :: "nat list"

text \<open>
  The behaviour of hmmlearn, scikit-learn and numpy that the selectors depend on, as
  parameters: whether \<open>fit\<close> returns (or raises) for a state count, a seed and a data set;
  what \<open>score\<close> returns (\<open>None\<close>: it raises); the fold count of \<open>KFold()\<close> called without
  arguments (3 in the scikit-learn releases before 0.22, 5 since); the number whose
  nearest double \<open>np.log\<close> returns for a positive count; and the mean that \<open>np.mean\<close>
  returns for eight or more values, which numpy adds up blockwise in an order of its own.
\<close>

record env =
  hmm_fit_ok :: "int \<Rightarrow> int \<Rightarrow> arraylike \<Rightarrow> nat list \<Rightarrow> bool"
  hmm_score :: "hmm \<Rightarrow> arraylike \<Rightarrow> nat list \<Rightarrow> pyfloat option"
  kfold_n_splits :: nat
  numpy_log :: "nat \<Rightarrow> real"
  numpy_long_mean :: "pyfloat list \<Rightarrow> pyfloat"

text \<open>
  \<open>np.log(N)\<close> of a row count: \<open>-inf\<close> (with a warning, no exception) at zero; a count
  beyond the 64-bit integers is no numeric argument for numpy, which raises.
\<close>

definition np_log :: "env \<Rightarrow> nat \<Rightarrow> exn + pyfloat" where
  "np_log E N =
     (if N = 0 then Inr NInf
      else if 2 ^ 64 \<le> N then Inl TypeError
      else Inr (fl (numpy_log E N)))"

text \<open>
  \<open>np.mean\<close> of a list of floats: \<open>nan\<close> (with a warning, no exception) on the empty
  list; for fewer than eight values the sum from left to right, divided by the count.
\<close>

definition np_mean :: "env \<Rightarrow> pyfloat list \<Rightarrow> pyfloat" where
  "np_mean E xs =
     (if xs = [] then NaN
      else if length xs < 8 then f_div_count (f_sum xs) (length xs)
      else as_float (numpy_long_mean E xs))"

definition GaussianHMM_fit :: "env \<Rightarrow> int \<Rightarrow> int \<Rightarrow> arraylike \<Rightarrow> nat list \<Rightarrow> exn + hmm" where
  "GaussianHMM_fit E n sd Xm ls =
     (if hmm_fit_ok E n sd Xm ls
      then Inr \<lparr>n_components = n, seed = sd, trained_X = Xm, trained_lengths = ls\<rparr>
      else Inl TrainingFailure)"

text \<open>\<open>model.fit(X, lengths)\<close> on an existing object: the same object, fitted again.\<close>

definition fit :: "env \<Rightarrow> hmm \<Rightarrow> arraylike \<Rightarrow> nat list \<Rightarrow> exn + hmm" where
  "fit E model Xm ls = GaussianHMM_fit E (n_components model) (seed model) Xm ls"

definition score :: "env \<Rightarrow> hmm \<Rightarrow> arraylike \<Rightarrow> nat list \<Rightarrow> exn + pyfloat" where
  "score E model Xm ls =
     (case hmm_score E model Xm ls of
        None \<Rightarrow> Inl ScoringFailure
      | Some v \<Rightarrow> Inr (as_float v))"

text \<open>
  \<open>KFold(n_splits=k).split\<close> over \<open>n\<close> samples, without shuffling: \<open>k\<close> contiguous test
  blocks, the first \<open>n mod k\<close> of them one longer; \<open>ValueError\<close> when \<open>k < 2\<close> or when
  there are fewer samples than folds.
\<close>

definition fold_sizes :: "nat \<Rightarrow> nat \<Rightarrow> nat list" where
  "fold_sizes k n = map (\<lambda>i. n div k + (if i < n mod k then 1 else 0)) [0..<k]"

fun fold_tests :: "nat \<Rightarrow> nat list \<Rightarrow> nat list list" where
  "fold_tests start [] = []"
| "fold_tests start (sz # szs) = [start..<start + sz] # fold_tests (start + sz) szs"

definition KFold_split :: "nat \<Rightarrow> nat \<Rightarrow> exn + (nat list \<times> nat list) list" where
  "KFold_split k n =
     (if k < 2 then Inl ValueError
      else if n < k then Inl ValueError
      else Inr (map (\<lambda>test. (filter (\<lambda>i. i \<notin> set test) [0..<n], test))
                    (fold_tests 0 (fold_sizes k n))))"

section \<open>\<open>asl_utils.combine_sequences\<close>\<close>

text \<open>
  Modelled from the spec: \<open>combine_sequences\<close> is imported from \<open>asl_utils\<close>, which is not
  among the source files.  The spec's SequenceCombiner: the matrix is the row-wise
  concatenation, in the given index order, of the selected sequences, and the lengths are
  the selected sequences' row counts in the same order.  The rows are returned as a list.
  An index outside the sequence list is Python's \<open>IndexError\<close>.
\<close>

definition combine_sequences :: "nat list \<Rightarrow> sequence list \<Rightarrow> exn + (arraylike \<times> nat list)" where
  "combine_sequences split_index_list seqs =
     (if list_all (\<lambda>idx. idx < length seqs) split_index_list
      then Inr (PyList (concat (map (\<lambda>idx. seqs ! idx) split_index_list)),
                map (\<lambda>idx. length (seqs ! idx)) split_index_list)
      else Inl IndexError)"

section \<open>\<open>ModelSelector\<close>\<close>

text \<open>
  The two corpus dictionaries are association lists (a Python dict has no repeated key;
  iteration visits the keys in order).
\<close>

record ModelSelector =
  words :: "(string \<times> sequence list) list"
  hwords :: "(string \<times> (arraylike \<times> nat list)) list"
  sequences :: "sequence list"
  X :: arraylike
  lengths :: "nat list"
  this_word :: string
  n_constant :: int
  min_n_components :: int
  max_n_components :: int
  random_state :: int
  verbose :: bool

text \<open>\<open>__init__\<close>: both subscripts raise \<open>KeyError\<close> for a missing key.\<close>

definition ModelSelector_init ::
  "(string \<times> sequence list) list \<Rightarrow> (string \<times> (arraylike \<times> nat list)) list \<Rightarrow> string \<Rightarrow>
   int \<Rightarrow> int \<Rightarrow> int \<Rightarrow> int \<Rightarrow> bool \<Rightarrow> exn + ModelSelector" where
  "ModelSelector_init all_word_sequences all_word_Xlengths word n_const min_n max_n rs vb =
     (case map_of all_word_sequences word of
        None \<Rightarrow> Inl KeyError
      | Some seqs \<Rightarrow>
          (case map_of all_word_Xlengths word of
             None \<Rightarrow> Inl KeyError
           | Some (Xm, ls) \<Rightarrow>
               Inr \<lparr>words = all_word_sequences, hwords = all_word_Xlengths,
                    sequences = seqs, X = Xm, lengths = ls, this_word = word,
                    n_constant = n_const, min_n_components = min_n,
                    max_n_components = max_n, random_state = rs, verbose = vb\<rparr>))"

text \<open>\<open>base_model\<close>: any exception of the fit is caught and \<open>None\<close> is returned.\<close>

definition base_model :: "env \<Rightarrow> ModelSelector \<Rightarrow> int \<Rightarrow> hmm option" where
  "base_model E s num_states =
     (case GaussianHMM_fit E num_states (random_state s) (X s) (lengths s) of
        Inl e \<Rightarrow> None
      | Inr hmm_model \<Rightarrow> Some hmm_model)"

section \<open>\<open>SelectorConstant\<close>\<close>

definition SelectorConstant_select :: "env \<Rightarrow> ModelSelector \<Rightarrow> exn + hmm option" where
  "SelectorConstant_select E s = Inr (base_model E s (n_constant s))"

section \<open>\<open>SelectorBIC\<close>\<close>

text \<open>The \<open>try\<close> block of one candidate: the exception raised, or the score and the model.\<close>

definition bic_try :: "env \<Rightarrow> ModelSelector \<Rightarrow> int \<Rightarrow> exn + (pyfloat \<times> hmm)" where
  "bic_try E s n_states =
     (case shape (X s) of
        Inl e \<Rightarrow> Inl e
      | Inr (N, M) \<Rightarrow>
          (case base_model E s n_states of
             None \<Rightarrow> Inl AssertionError
           | Some model \<Rightarrow>
               (case score E model (X s) (lengths s) of
                  Inl e \<Rightarrow> Inl e
                | Inr logL \<Rightarrow>
                    (let p = n_states ^ 2 + 2 * int M * n_states - 1
                     in case np_log E N of
                          Inl e \<Rightarrow> Inl e
                        | Inr logN \<Rightarrow>
                            (case float_of_int p of
                               Inl e \<Rightarrow> Inl e
                             | Inr pf \<Rightarrow>
                                 Inr (f_add (f_mul (Fin (- 2)) logL) (f_mul pf logN),
                                      model))))))"

text \<open>The \<open>for\<close> loop, with the running \<open>best_score\<close> and \<open>best_model\<close>.\<close>

fun bic_loop ::
  "env \<Rightarrow> ModelSelector \<Rightarrow> int list \<Rightarrow> pyfloat \<times> hmm option \<Rightarrow> pyfloat \<times> hmm option" where
  "bic_loop E s [] best = best"
| "bic_loop E s (n_states # rest) (best_score, best_model) =
     (case bic_try E s n_states of
        Inl e \<Rightarrow> bic_loop E s rest (best_score, best_model)
      | Inr (sc, model) \<Rightarrow>
          (if f_lt sc best_score then bic_loop E s rest (sc, Some model)
           else bic_loop E s rest (best_score, best_model)))"

definition SelectorBIC_select :: "env \<Rightarrow> ModelSelector \<Rightarrow> exn + hmm option" where
  "SelectorBIC_select E s =
     Inr (snd (bic_loop E s [min_n_components s..max_n_components s] (PInf, None)))"

section \<open>\<open>SelectorDIC\<close>\<close>

text \<open>
  The list comprehension \<open>[model.score(*self.hwords[word]) for word in \<dots>]\<close>: the first
  missing key or failing score raises out of the comprehension.
\<close>

fun other_scores :: "env \<Rightarrow> ModelSelector \<Rightarrow> hmm \<Rightarrow> string list \<Rightarrow> exn + pyfloat list" where
  "other_scores E s model [] = Inr []"
| "other_scores E s model (word # rest) =
     (case map_of (hwords s) word of
        None \<Rightarrow> Inl KeyError
      | Some (Xw, lw) \<Rightarrow>
          (case score E model Xw lw of
             Inl e \<Rightarrow> Inl e
           | Inr v \<Rightarrow>
               (case other_scores E s model rest of
                  Inl e \<Rightarrow> Inl e
                | Inr vs \<Rightarrow> Inr (v # vs))))"

text \<open>The words the comprehension visits: \<open>for word in self.words if word != self.this_word\<close>.\<close>

definition other_words :: "ModelSelector \<Rightarrow> string list" where
  "other_words s = filter (\<lambda>word. word \<noteq> this_word s) (map fst (words s))"

definition dic_try :: "env \<Rightarrow> ModelSelector \<Rightarrow> int \<Rightarrow> exn + (pyfloat \<times> hmm)" where
  "dic_try E s n_states =
     (case base_model E s n_states of
        None \<Rightarrow> Inl AssertionError
      | Some model \<Rightarrow>
          (case score E model (X s) (lengths s) of
             Inl e \<Rightarrow> Inl e
           | Inr logL \<Rightarrow>
               (case other_scores E s model (other_words s) of
                  Inl e \<Rightarrow> Inl e
                | Inr vs \<Rightarrow> Inr (f_sub logL (np_mean E vs), model))))"

fun dic_loop ::
  "env \<Rightarrow> ModelSelector \<Rightarrow> int list \<Rightarrow> pyfloat \<times> hmm option \<Rightarrow> pyfloat \<times> hmm option" where
  "dic_loop E s [] best = best"
| "dic_loop E s (n_states # rest) (best_score, best_model) =
     (case dic_try E s n_states of
        Inl e \<Rightarrow> dic_loop E s rest (best_score, best_model)
      | Inr (sc, model) \<Rightarrow>
          (if f_gt sc best_score then dic_loop E s rest (sc, Some model)
           else dic_loop E s rest (best_score, best_model)))"

definition SelectorDIC_select :: "env \<Rightarrow> ModelSelector \<Rightarrow> exn + hmm option" where
  "SelectorDIC_select E s =
     Inr (snd (dic_loop E s [min_n_components s..max_n_components s] (NInf, None)))"

section \<open>\<open>SelectorCV\<close>\<close>

text \<open>
  One pass of the inner loop over the folds.  The assertion, both calls of
  \<open>combine_sequences\<close> and the \<open>fit\<close> on the training part stand outside the \<open>try\<close>:
  their exceptions leave \<open>select\<close>.  Only the \<open>score\<close> on the test part is guarded.
  The result is the list \<open>state_scores\<close> and the object bound to \<open>model\<close>.
\<close>

definition cv_fold ::
  "env \<Rightarrow> ModelSelector \<Rightarrow> int \<Rightarrow> nat list \<times> nat list \<Rightarrow> pyfloat list \<Rightarrow>
   exn + (pyfloat list \<times> hmm)" where
  "cv_fold E s n_states split state_scores =
     (case split of (train_index, test_index) \<Rightarrow>
        (case base_model E s n_states of
           None \<Rightarrow> Inl AssertionError
         | Some model \<Rightarrow>
             (case combine_sequences train_index (sequences s) of
                Inl e \<Rightarrow> Inl e
              | Inr (X_train, train_lengths) \<Rightarrow>
                  (case combine_sequences test_index (sequences s) of
                     Inl e \<Rightarrow> Inl e
                   | Inr (X_test, test_lengths) \<Rightarrow>
                       (case fit E model X_train train_lengths of
                          Inl e \<Rightarrow> Inl e
                        | Inr model' \<Rightarrow>
                            (case score E model' X_test test_lengths of
                               Inl e \<Rightarrow> Inr (state_scores, model')
                             | Inr v \<Rightarrow> Inr (state_scores @ [v], model')))))))"

text \<open>
  The variable \<open>model\<close> is local to \<open>select\<close> and survives the loops: \<open>None\<close> while it
  is unbound.
\<close>

fun cv_folds ::
  "env \<Rightarrow> ModelSelector \<Rightarrow> int \<Rightarrow> (nat list \<times> nat list) list \<Rightarrow> pyfloat list \<times> hmm option \<Rightarrow>
   exn + (pyfloat list \<times> hmm option)" where
  "cv_folds E s n_states [] st = Inr st"
| "cv_folds E s n_states (split # rest) (state_scores, model) =
     (case cv_fold E s n_states split state_scores of
        Inl e \<Rightarrow> Inl e
      | Inr (state_scores', model') \<Rightarrow> cv_folds E s n_states rest (state_scores', Some model'))"

text \<open>
  The body of the outer loop up to the comparison: the folds of \<open>KFold()\<close>, the inner
  loop, and the mean of the collected scores, replaced by \<open>float('inf')\<close> when
  \<open>statistics.mean\<close> raises.
\<close>

definition cv_candidate ::
  "env \<Rightarrow> ModelSelector \<Rightarrow> int \<Rightarrow> hmm option \<Rightarrow> exn + (pyfloat \<times> hmm option)" where
  "cv_candidate E s n_states model =
     (case KFold_split (kfold_n_splits E) (length (sequences s)) of
        Inl e \<Rightarrow> Inl e
      | Inr folds \<Rightarrow>
          (case cv_folds E s n_states folds ([], model) of
             Inl e \<Rightarrow> Inl e
           | Inr (state_scores, model') \<Rightarrow>
               Inr ((case statistics_mean state_scores of Inl e \<Rightarrow> PInf | Inr v \<Rightarrow> v),
                    model')))"

fun cv_loop ::
  "env \<Rightarrow> ModelSelector \<Rightarrow> int list \<Rightarrow> pyfloat \<times> hmm option \<times> hmm option \<Rightarrow> exn + hmm option" where
  "cv_loop E s [] (best_score, best_model, model) = Inr best_model"
| "cv_loop E s (n_states # rest) (best_score, best_model, model) =
     (case cv_candidate E s n_states model of
        Inl e \<Rightarrow> Inl e
      | Inr (sc, model') \<Rightarrow>
          (if f_gt sc best_score
           then (case model' of
                   None \<Rightarrow> Inl NameError
                 | Some m \<Rightarrow> cv_loop E s rest (sc, Some m, model'))
           else cv_loop E s rest (best_score, best_model, model')))"

definition SelectorCV_select :: "env \<Rightarrow> ModelSelector \<Rightarrow> exn + hmm option" where
  "SelectorCV_select E s =
     (let min_num_states = 3;
          best_model = base_model E s min_num_states
      in if int (length (sequences s)) < min_num_states then Inr best_model
         else cv_loop E s [min_n_components s..max_n_components s] (NInf, best_model, None))"

section \<open>The running best of a search\<close>

text \<open>
  The three loops share one shape: a candidate that yields nothing is skipped, and a
  candidate replaces the running best when its score is strictly better.
\<close>

fun track ::
  "(pyfloat \<Rightarrow> pyfloat \<Rightarrow> bool) \<Rightarrow> pyfloat \<times> 'a option \<Rightarrow> (pyfloat \<times> 'a) option list \<Rightarrow>
   pyfloat \<times> 'a option" where
  "track better best [] = best"
| "track better best (None # cs) = track better best cs"
| "track better (b, m) (Some (sc, x) # cs) =
     (if better sc b then track better (sc, Some x) cs else track better (b, m) cs)"

definition yield :: "exn + 'a \<Rightarrow> 'a option" where
  "yield r = (case r of Inl e \<Rightarrow> None | Inr v \<Rightarrow> Some v)"

text \<open>
  What a candidate of \<open>SelectorCV.select\<close> contributes to the running best when its
  body completes: the mean fold score and the object then bound to \<open>model\<close>.
\<close>

definition cv_yield :: "env \<Rightarrow> ModelSelector \<Rightarrow> int \<Rightarrow> (pyfloat \<times> hmm) option" where
  "cv_yield E s n =
     (case cv_candidate E s n None of
        Inl e \<Rightarrow> None
      | Inr (sc, None) \<Rightarrow> None
      | Inr (sc, Some m) \<Rightarrow> Some (sc, m))"

text \<open>
  The BIC score as section 4.4 of the specification writes it, for comparison with the
  \<open>try\<close> block of the source: \<open>score = -2*logL + p*ln(N)\<close> with
  \<open>p = n^2 + 2*n*M - 1\<close>, in the arithmetic of floats, with the value of \<open>np.log(N)\<close>
  and the converted \<open>p\<close> as arguments.
\<close>

definition spec_p :: "int \<Rightarrow> nat \<Rightarrow> int" where
  "spec_p n M = n ^ 2 + 2 * n * int M - 1"

definition spec_bic_score :: "pyfloat \<Rightarrow> pyfloat \<Rightarrow> pyfloat \<Rightarrow> pyfloat" where
  "spec_bic_score logL pf logN = f_add (f_mul (Fin (- 2)) logL) (f_mul pf logN)"

text \<open>The order of the floats that are numbers: \<open>a\<close> is at most \<open>b\<close>.\<close>

definition f_le :: "pyfloat \<Rightarrow> pyfloat \<Rightarrow> bool" where
  "f_le a b = (a \<noteq> NaN \<and> b \<noteq> NaN \<and> \<not> f_lt b a)"

section \<open>A small corpus and some library behaviours\<close>

text \<open>
  Two labels; the target label has four sequences with five rows of two features.
\<close>

definition demo_sequences :: "sequence list" where
  "demo_sequences = [[[1, 2]], [[3, 4], [5, 6]], [[7, 8]], [[9, 10]]]"

definition other_sequences :: "sequence list" where
  "other_sequences = [[[0, 1]], [[1, 0]], [[1, 1]]]"

definition demo_words :: "(string \<times> sequence list) list" where
  "demo_words = [(''JOHN'', demo_sequences), (''MARY'', other_sequences)]"

definition demo_hwords :: "(string \<times> (arraylike \<times> nat list)) list" where
  "demo_hwords =
     [(''JOHN'', (NdArray 2 (concat demo_sequences), map length demo_sequences)),
      (''MARY'', (NdArray 2 (concat other_sequences), map length other_sequences))]"

definition demo_selector :: ModelSelector where
  "demo_selector =
     \<lparr>words = demo_words, hwords = demo_hwords, sequences = demo_sequences,
      X = NdArray 2 (concat demo_sequences), lengths = map length demo_sequences,
      this_word = ''JOHN'', n_constant = 3, min_n_components = 2, max_n_components = 4,
      random_state = 14, verbose = False\<rparr>"

text \<open>A label with two sequences, and a label with a single row.\<close>

definition short_selector :: ModelSelector where
  "short_selector =
     demo_selector\<lparr>sequences := take 2 demo_sequences,
                     X := NdArray 2 (concat (take 2 demo_sequences)),
                     lengths := map length (take 2 demo_sequences)\<rparr>"

definition one_row_selector :: ModelSelector where
  "one_row_selector =
     demo_selector\<lparr>sequences := take 1 demo_sequences,
                     X := NdArray 2 (concat (take 1 demo_sequences)),
                     lengths := map length (take 1 demo_sequences)\<rparr>"

text \<open>
  Every fit converges and every score is the same log-likelihood; three folds; a
  logarithm that is correctly rounded; long means added up from left to right.
\<close>

definition env_constant :: env where
  "env_constant =
     \<lparr>hmm_fit_ok = (\<lambda>n sd Xm ls. True),
      hmm_score = (\<lambda>model Xm ls. Some (Fin (- 100))),
      kfold_n_splits = 3,
      numpy_log = (\<lambda>N. ln (real N)),
      numpy_long_mean = (\<lambda>xs. f_div_count (f_sum xs) (length xs))\<rparr>"

text \<open>The same with the fold count 5 of current scikit-learn.\<close>

definition env_five_folds :: env where
  "env_five_folds = env_constant\<lparr>kfold_n_splits := 5\<rparr>"

text \<open>The fit fails for four states and for no other state count.\<close>

definition env_fail4 :: env where
  "env_fail4 = env_constant\<lparr>hmm_fit_ok := (\<lambda>n sd Xm ls. n \<noteq> 4)\<rparr>"

text \<open>A model with three states cannot score anything; any other model scores \<open>-10\<close>.\<close>

definition env_noscore3 :: env where
  "env_noscore3 =
     env_constant\<lparr>hmm_score :=
       (\<lambda>model Xm ls. if n_components model = 3 then None else Some (Fin (- 10)))\<rparr>"

text \<open>A corpus that holds the target label alone.\<close>

definition solo_selector :: ModelSelector where
  "solo_selector =
     demo_selector\<lparr>words := [(''JOHN'', demo_sequences)],
                     hwords := [(''JOHN'', (NdArray 2 (concat demo_sequences),
                                            map length demo_sequences))]\<rparr>"

text \<open>
  A corpus of three labels, and scores that depend on the data and on the state count.
  With two states: \<open>2^54 + 4\<close> on the target label, \<open>2^55\<close> and \<open>4\<close> on the other
  two.  With three states: \<open>3\<close> on the target label and \<open>0\<close> on the others.  With
  four states: \<open>-10\<close> on the target label, \<open>0\<close> on the second label and a failure on
  the third.
\<close>

definition third_sequences :: "sequence list" where
  "third_sequences = [[[2, 2]], [[2, 3]]]"

definition trio_selector :: ModelSelector where
  "trio_selector =
     demo_selector\<lparr>words := demo_words @ [(''SUE'', third_sequences)],
                     hwords := demo_hwords @
                       [(''SUE'', (NdArray 2 (concat third_sequences),
                                  map length third_sequences))]\<rparr>"

definition env_dic :: env where
  "env_dic =
     env_constant\<lparr>hmm_score :=
       (\<lambda>model Xm ls.
          if n_components model = 2
          then (if Xm = NdArray 2 (concat other_sequences) then Some (Fin 36028797018963968)
                else if Xm = NdArray 2 (concat third_sequences) then Some (Fin 4)
                else Some (Fin 18014398509481988))
          else if n_components model = 3
          then (if Xm = NdArray 2 (concat demo_sequences) then Some (Fin 3)
                else Some (Fin 0))
          else (if Xm = NdArray 2 (concat third_sequences) then None
                else if Xm = NdArray 2 (concat other_sequences) then Some (Fin 0)
                else Some (Fin (- 10))))\<rparr>"

text \<open>The search ranges 3..5 and 2..3 on the same label.\<close>

definition range35_selector :: ModelSelector where
  "range35_selector = demo_selector\<lparr>min_n_components := 3, max_n_components := 5\<rparr>"

definition range23_selector :: ModelSelector where
  "range23_selector = demo_selector\<lparr>max_n_components := 3\<rparr>"

text \<open>
  The end-to-end scenario of the specification: label \<open>X\<close> with 50 rows of 6 features,
  state counts 2..4, and log-likelihoods \<open>-100\<close>, \<open>-80\<close> and \<open>-78\<close>.
\<close>

definition scenario_sequences :: "sequence list" where
  "scenario_sequences = [replicate 50 [0, 0, 0, 0, 0, 0]]"

definition scenario_selector :: ModelSelector where
  "scenario_selector =
     \<lparr>words = [(''X'', scenario_sequences)],
      hwords = [(''X'', (NdArray 6 (concat scenario_sequences),
                         map length scenario_sequences))],
      sequences = scenario_sequences,
      X = NdArray 6 (concat scenario_sequences), lengths = map length scenario_sequences,
      this_word = ''X'', n_constant = 3, min_n_components = 2, max_n_components = 4,
      random_state = 14, verbose = False\<rparr>"

definition env_scenario :: env where
  "env_scenario =
     env_constant\<lparr>hmm_score :=
       (\<lambda>model Xm ls.
          Some (Fin (if n_components model = 2 then - 100
                     else if n_components model = 3 then - 80 else - 78)))\<rparr>"

section \<open>Rounding to the nearest double\<close>

lemma rhe_of_int [simp]: "round_half_even (of_int j) = j"
  by (simp add: round_half_even_def)

lemma rhe_mono: "q1 \<le> q2 \<Longrightarrow> round_half_even q1 \<le> round_half_even q2"
proof -
  assume le: "q1 \<le> q2"
  have f: "\<lfloor>q1\<rfloor> \<le> \<lfloor>q2\<rfloor>" using le by (rule floor_mono)
  show ?thesis
  proof (cases "\<lfloor>q1\<rfloor> = \<lfloor>q2\<rfloor>")
    case True
    then have "q1 - of_int \<lfloor>q1\<rfloor> \<le> q2 - of_int \<lfloor>q2\<rfloor>" using le by simp
    with True show ?thesis
      by (auto simp: round_half_even_def Let_def)
  next
    case False
    with f have "\<lfloor>q1\<rfloor> + 1 \<le> \<lfloor>q2\<rfloor>" by simp
    moreover have "round_half_even q1 \<le> \<lfloor>q1\<rfloor> + 1"
      by (auto simp: round_half_even_def Let_def)
    moreover have "\<lfloor>q2\<rfloor> \<le> round_half_even q2"
      by (auto simp: round_half_even_def Let_def)
    ultimately show ?thesis by linarith
  qed
qed

lemma rhe_ge: "of_int j \<le> q \<Longrightarrow> j \<le> round_half_even q"
  using rhe_mono [of "of_int j" q] by simp

lemma rhe_le: "q \<le> of_int j \<Longrightarrow> round_half_even q \<le> j"
  using rhe_mono [of q "of_int j"] by simp

lemma rhe_minus: "round_half_even (- q) = - round_half_even q"
proof (cases "q \<in> \<int>")
  case True
  then obtain j where "q = of_int j" by (auto elim: Ints_cases)
  then have "- q = of_int (- j)" by simp
  then show ?thesis unfolding \<open>q = of_int j\<close> by (simp only: rhe_of_int)
next
  case False
  have "q \<noteq> of_int \<lfloor>q\<rfloor>"
    using False Ints_of_int [of "\<lfloor>q\<rfloor>"] by metis
  then have d: "0 < q - of_int \<lfloor>q\<rfloor>" "q - of_int \<lfloor>q\<rfloor> < 1"
    by linarith+
  have fl: "\<lfloor>- q\<rfloor> = - \<lfloor>q\<rfloor> - 1"
    using d by (intro floor_unique) simp_all
  have e: "- q - of_int (- \<lfloor>q\<rfloor> - 1) = 1 - (q - of_int \<lfloor>q\<rfloor>)"
    by simp
  show ?thesis
    using d unfolding round_half_even_def Let_def fl e by auto
qed


lemma floor_log2_bounds:
  assumes "x \<noteq> 0"
  shows "2 powr of_int \<lfloor>log 2 \<bar>x\<bar>\<rfloor> \<le> \<bar>x\<bar>" "\<bar>x\<bar> < 2 powr of_int (\<lfloor>log 2 \<bar>x\<bar>\<rfloor> + 1)"
proof -
  have pos: "0 < \<bar>x\<bar>" using assms by simp
  have "2 powr of_int \<lfloor>log 2 \<bar>x\<bar>\<rfloor> \<le> 2 powr log 2 \<bar>x\<bar>"
    by (intro powr_mono) simp_all
  then show "2 powr of_int \<lfloor>log 2 \<bar>x\<bar>\<rfloor> \<le> \<bar>x\<bar>"
    using pos by simp
  have "2 powr log 2 \<bar>x\<bar> < 2 powr of_int (\<lfloor>log 2 \<bar>x\<bar>\<rfloor> + 1)"
    by (intro powr_less_mono) simp_all
  then show "\<bar>x\<bar> < 2 powr of_int (\<lfloor>log 2 \<bar>x\<bar>\<rfloor> + 1)"
    using pos by simp
qed

lemma two_powr_int_add: "2 powr of_int (a + b) = 2 powr of_int a * (2 powr of_int b :: real)"
  by (simp add: powr_add)

lemma two_powr_nat: "0 \<le> a \<Longrightarrow> 2 powr of_int a = (2 :: real) ^ nat a"
  by (simp add: powr_realpow [symmetric])

lemma nearest_double_pos_bounds:
  assumes "0 < x"
  defines "K \<equiv> max \<lfloor>log 2 \<bar>x\<bar>\<rfloor> (- 1022)"
  shows "nearest_double x \<le> 2 powr of_int (K + 1)"
    and "- 1022 \<le> \<lfloor>log 2 \<bar>x\<bar>\<rfloor> \<Longrightarrow> 2 powr of_int K \<le> nearest_double x"
    and "0 \<le> nearest_double x"
proof -
  let ?e = "ulp_exponent x"
  let ?q = "x / 2 powr of_int ?e"
  have e: "?e = K - 52" by (simp add: ulp_exponent_def K_def)
  have x0: "x \<noteq> 0" "\<bar>x\<bar> = x" using assms(1) by simp_all
  have nd: "nearest_double x = of_int (round_half_even ?q) * 2 powr of_int ?e"
    using x0 by (simp add: nearest_double_def)
  have P: "0 < 2 powr real_of_int ?e" by simp
  have "x < 2 powr of_int (\<lfloor>log 2 \<bar>x\<bar>\<rfloor> + 1)"
    using floor_log2_bounds(2) [OF x0(1)] x0(2) by simp
  also have "\<dots> \<le> 2 powr of_int (K + 1)"
    by (intro powr_mono) (simp_all add: K_def)
  also have "\<dots> = 2 powr of_int 53 * 2 powr of_int ?e"
    unfolding e two_powr_int_add [symmetric] by (simp add: algebra_simps)
  finally have "?q < 2 powr of_int 53"
    using P by (simp add: pos_divide_less_eq)
  then have "?q \<le> of_int (2 ^ 53)"
    by (simp add: two_powr_nat)
  then have "round_half_even ?q \<le> 2 ^ 53" by (rule rhe_le)
  then have "of_int (round_half_even ?q) \<le> (2 ^ 53 :: real)"
    by (metis of_int_le_iff of_int_numeral of_int_power)
  then have "nearest_double x \<le> 2 ^ 53 * 2 powr of_int ?e"
    unfolding nd using P by (intro mult_right_mono) simp_all
  also have "\<dots> = 2 powr of_int (K + 1)"
    unfolding e by (simp add: powr_diff powr_add two_powr_nat)
  finally show "nearest_double x \<le> 2 powr of_int (K + 1)" .
  have "of_int 0 \<le> ?q" using assms(1) by simp
  then have "0 \<le> round_half_even ?q" by (rule rhe_ge)
  then show "0 \<le> nearest_double x"
    unfolding nd by simp
  assume "- 1022 \<le> \<lfloor>log 2 \<bar>x\<bar>\<rfloor>"
  then have K: "K = \<lfloor>log 2 \<bar>x\<bar>\<rfloor>" by (simp add: K_def)
  have h52: "2 powr of_int 52 * 2 powr of_int ?e = (2 powr of_int K :: real)"
    unfolding e two_powr_int_add [symmetric] by (simp add: algebra_simps)
  note h52
  also have "\<dots> \<le> x"
    using floor_log2_bounds(1) [OF x0(1)] x0(2) K by simp
  finally have "2 powr of_int 52 \<le> ?q"
    using P by (simp add: pos_le_divide_eq)
  then have "of_int (2 ^ 52) \<le> ?q"
    by (simp add: two_powr_nat)
  then have "2 ^ 52 \<le> round_half_even ?q" by (rule rhe_ge)
  then have "(2 ^ 52 :: real) \<le> of_int (round_half_even ?q)"
    by (metis of_int_le_iff of_int_numeral of_int_power)
  then have "2 ^ 52 * 2 powr of_int ?e \<le> nearest_double x"
    unfolding nd using P by (intro mult_right_mono) simp_all
  moreover have "2 ^ 52 * 2 powr of_int ?e = (2 powr of_int K :: real)"
    using h52 by (simp add: two_powr_nat)
  ultimately show "2 powr of_int K \<le> nearest_double x" by simp
qed


lemma nearest_double_mono_pos:
  assumes "0 < x" "x \<le> y"
  shows "nearest_double x \<le> nearest_double y"
proof -
  let ?kx = "\<lfloor>log 2 \<bar>x\<bar>\<rfloor>" and ?ky = "\<lfloor>log 2 \<bar>y\<bar>\<rfloor>"
  let ?Kx = "max ?kx (- 1022)" and ?Ky = "max ?ky (- 1022)"
  have y: "0 < y" using assms by simp
  have "log 2 \<bar>x\<bar> \<le> log 2 \<bar>y\<bar>" using assms by simp
  then have k: "?kx \<le> ?ky" by (rule floor_mono)
  then have K: "?Kx \<le> ?Ky" by simp
  show ?thesis
  proof (cases "?Kx = ?Ky")
    case True
    then have e: "ulp_exponent x = ulp_exponent y" by (simp add: ulp_exponent_def)
    have "x / 2 powr of_int (ulp_exponent y) \<le> y / 2 powr of_int (ulp_exponent y)"
      using assms(2) by (simp add: divide_right_mono)
    then have "round_half_even (x / 2 powr of_int (ulp_exponent y))
        \<le> round_half_even (y / 2 powr of_int (ulp_exponent y))"
      by (rule rhe_mono)
    then have "real_of_int (round_half_even (x / 2 powr of_int (ulp_exponent y))) * 2 powr of_int (ulp_exponent y)
        \<le> real_of_int (round_half_even (y / 2 powr of_int (ulp_exponent y))) * 2 powr of_int (ulp_exponent y)"
      by (intro mult_right_mono) simp_all
    then show ?thesis
      using assms(1) y by (simp add: nearest_double_def e)
  next
    case False
    have lt: "?Kx + 1 \<le> ?Ky" using K False by linarith
    then have "- 1022 \<le> ?ky" by linarith
    from nearest_double_pos_bounds(2) [OF y this]
    have "2 powr of_int ?Ky \<le> nearest_double y" .
    moreover have "nearest_double x \<le> 2 powr of_int (?Kx + 1)"
      using nearest_double_pos_bounds(1) [OF assms(1)] .
    moreover have "2 powr real_of_int (?Kx + 1) \<le> 2 powr real_of_int ?Ky"
      using lt by (intro powr_mono) simp_all
    ultimately show ?thesis by linarith
  qed
qed

lemma nearest_double_minus: "nearest_double (- x) = - nearest_double x"
  by (simp add: nearest_double_def ulp_exponent_def rhe_minus)

lemma nearest_double_mono:
  assumes "x \<le> y"
  shows "nearest_double x \<le> nearest_double y"
proof -
  consider "0 < x" | "y < 0" | "x \<le> 0" "0 \<le> y" by linarith
  then show ?thesis
  proof cases
    case 1
    then show ?thesis using assms by (rule nearest_double_mono_pos)
  next
    case 2
    then have "0 < - y" "- y \<le> - x" using assms by simp_all
    then have "nearest_double (- y) \<le> nearest_double (- x)"
      by (rule nearest_double_mono_pos)
    then show ?thesis by (simp add: nearest_double_minus)
  next
    case 3
    have "nearest_double x \<le> 0"
    proof (cases "x = 0")
      case True
      then show ?thesis by (simp add: nearest_double_def)
    next
      case False
      with 3 have "0 < - x" by simp
      from nearest_double_pos_bounds(3) [OF this] show ?thesis
        by (simp add: nearest_double_minus)
    qed
    moreover have "0 \<le> nearest_double y"
    proof (cases "y = 0")
      case True
      then show ?thesis by (simp add: nearest_double_def)
    next
      case False
      with 3 have "0 < y" by simp
      then show ?thesis by (rule nearest_double_pos_bounds(3))
    qed
    ultimately show ?thesis by simp
  qed
qed

lemma nearest_double_exact:
  assumes "\<bar>m\<bar> < 2 ^ 53" "- 1074 \<le> j"
  shows "nearest_double (of_int m * 2 powr of_int j) = of_int m * 2 powr of_int j"
proof (cases "m = 0")
  case True
  then show ?thesis by (simp add: nearest_double_def)
next
  case False
  let ?x = "of_int m * 2 powr of_int j :: real"
  let ?e = "ulp_exponent ?x"
  have x0: "?x \<noteq> 0" using False by simp
  have m1: "1 \<le> \<bar>real_of_int m\<bar>" using False by (simp flip: of_int_abs)
  have "\<bar>real_of_int m\<bar> < 2 ^ 53"
    using assms(1) by (metis of_int_abs of_int_less_iff of_int_numeral of_int_power)
  then have "\<bar>?x\<bar> < 2 ^ 53 * 2 powr of_int j"
    by (simp add: abs_mult)
  also have "\<dots> = 2 powr of_int (53 + j)"
    by (simp add: powr_add two_powr_nat)
  finally have "log 2 \<bar>?x\<bar> < of_int (53 + j)"
    using x0 by (subst log_less_iff) simp_all
  then have "\<lfloor>log 2 \<bar>?x\<bar>\<rfloor> < 53 + j" by (simp add: floor_less_iff)
  then have e: "?e \<le> j" using assms(2) by (simp add: ulp_exponent_def)
  have "?x / 2 powr of_int ?e = of_int m * 2 powr of_int (j - ?e)"
    by (simp add: powr_diff)
  also have "2 powr of_int (j - ?e) = (2 :: real) ^ nat (j - ?e)"
    using e by (intro two_powr_nat) simp
  also have "of_int m * (2 :: real) ^ nat (j - ?e) = of_int (m * 2 ^ nat (j - ?e))"
    by simp
  finally have q: "?x / 2 powr of_int ?e = of_int (m * 2 ^ nat (j - ?e))" .
  have "nearest_double ?x =
      of_int (round_half_even (?x / 2 powr of_int ?e)) * 2 powr of_int ?e"
    using x0 by (simp add: nearest_double_def)
  also have "\<dots> = (?x / 2 powr of_int ?e) * 2 powr of_int ?e"
    unfolding q rhe_of_int ..
  also have "\<dots> = ?x" by simp
  finally show ?thesis .
qed

lemma nearest_double_of_int:
  assumes "\<bar>k\<bar> < 2 ^ 53"
  shows "nearest_double (of_int k) = of_int k"
  using nearest_double_exact [OF assms, of 0] by simp

lemma nearest_double_0 [simp]: "nearest_double 0 = 0"
  by (simp add: nearest_double_def)

lemma nearest_double_eval:
  assumes "2 powr of_int k \<le> \<bar>x\<bar>" "\<bar>x\<bar> < 2 powr of_int (k + 1)" "- 1022 \<le> k"
  shows "nearest_double x =
     of_int (round_half_even (x / 2 powr of_int (k - 52))) * 2 powr of_int (k - 52)"
proof -
  have x0: "x \<noteq> 0" using assms(1) by (auto simp: not_le)
  have "\<lfloor>log 2 \<bar>x\<bar>\<rfloor> = k"
  proof (rule floor_unique)
    show "of_int k \<le> log 2 \<bar>x\<bar>"
      using assms(1) x0 by (subst le_log_iff) simp_all
    show "log 2 \<bar>x\<bar> < of_int k + 1"
      using assms(2) x0 by (subst log_less_iff) (simp_all add: add.commute)
  qed
  then have "ulp_exponent x = k - 52"
    using assms(3) by (simp add: ulp_exponent_def)
  then show ?thesis using x0 by (simp add: nearest_double_def)
qed

lemma fl_finite:
  "\<bar>nearest_double x\<bar> < 2 ^ 1024 \<Longrightarrow> fl x = Fin (nearest_double x)"
  by (auto simp: fl_def Let_def)

lemma fl_of_int:
  assumes "\<bar>k\<bar> < 2 ^ 53"
  shows "fl (of_int k) = Fin (of_int k)"
proof -
  have "\<bar>real_of_int k\<bar> < 2 ^ 53"
    using assms by (metis of_int_abs of_int_less_iff of_int_numeral of_int_power)
  also have "\<dots> < (2 :: real) ^ 1024" by simp
  finally show ?thesis
    using nearest_double_of_int [OF assms] by (simp add: fl_finite)
qed

lemma fl_0 [simp]: "fl 0 = Fin 0"
  using fl_of_int [of 0] by simp

lemma fl_1 [simp]: "fl 1 = Fin 1"
  using fl_of_int [of 1] by simp

lemma fl_numeral [simp]:
  "numeral k < (9007199254740992 :: int) \<Longrightarrow> fl (numeral k) = Fin (numeral k)"
  using fl_of_int [of "numeral k"] by simp

lemma fl_neg_numeral [simp]:
  "numeral k < (9007199254740992 :: int) \<Longrightarrow> fl (- numeral k) = Fin (- numeral k)"
  using fl_of_int [of "- numeral k"] by simp

lemma fl_not_NaN [simp]: "fl x \<noteq> NaN"
  by (simp add: fl_def Let_def)

lemma as_float_simps [simp]:
  "as_float (Fin x) = fl x" "as_float NaN = NaN" "as_float PInf = PInf" "as_float NInf = NInf"
  by (simp_all add: as_float_def)

lemma fl_mono:
  assumes "x \<le> y"
  shows "f_le (fl x) (fl y)"
  using nearest_double_mono [OF assms]
  by (auto simp: fl_def f_le_def Let_def)

lemma fl_overflow:
  assumes "2 ^ 1024 \<le> x"
  shows "fl x = PInf"
proof -
  have x: "0 < x" using assms by (rule less_le_trans [rotated]) simp
  have "(1024 :: real) \<le> log 2 \<bar>x\<bar>"
    using assms x by (subst le_log_iff) simp_all
  then have k: "1024 \<le> \<lfloor>log 2 \<bar>x\<bar>\<rfloor>" by (simp add: le_floor_iff)
  then have "- 1022 \<le> \<lfloor>log 2 \<bar>x\<bar>\<rfloor>" by simp
  from nearest_double_pos_bounds(2) [OF x this] k
  have "2 powr of_int \<lfloor>log 2 \<bar>x\<bar>\<rfloor> \<le> nearest_double x" by (simp add: max_def)
  moreover have "2 powr of_int 1024 \<le> (2 powr of_int \<lfloor>log 2 \<bar>x\<bar>\<rfloor> :: real)"
    using k by (intro powr_mono) simp_all
  ultimately have "2 ^ 1024 \<le> nearest_double x"
    by (simp add: two_powr_nat)
  then show ?thesis by (simp add: fl_def Let_def)
qed

lemma fl_between:
  assumes "of_int a \<le> x" "x \<le> of_int b" "\<bar>a\<bar> < 2 ^ 53" "\<bar>b\<bar> < 2 ^ 53"
  shows "\<exists>r. fl x = Fin r \<and> of_int a \<le> r \<and> r \<le> of_int b"
proof -
  have lo: "of_int a \<le> nearest_double x"
    using nearest_double_mono [OF assms(1)] nearest_double_of_int [OF assms(3)] by simp
  have hi: "nearest_double x \<le> of_int b"
    using nearest_double_mono [OF assms(2)] nearest_double_of_int [OF assms(4)] by simp
  have "\<bar>real_of_int a\<bar> < 2 ^ 1024" "\<bar>real_of_int b\<bar> < 2 ^ 1024"
    using assms(3,4) fl_of_int [of a] fl_of_int [of b] nearest_double_of_int [of a]
      nearest_double_of_int [of b]
    by (auto simp: fl_def Let_def split: if_splits)
  with lo hi have "\<bar>nearest_double x\<bar> < 2 ^ 1024" by linarith
  with lo hi show ?thesis by (simp add: fl_finite)
qed

section \<open>Comparisons of floats\<close>

lemma f_lt_NInf_right [simp]: "f_lt a NInf = False"
  by (cases a) simp_all

lemma f_lt_PInf_left [simp]: "f_lt PInf b = False"
  by (cases b) simp_all

lemma f_le_refl: "a \<noteq> NaN \<Longrightarrow> f_le a a"
  by (cases a) (simp_all add: f_le_def)

lemma f_le_Fin [simp]: "f_le (Fin x) (Fin y) \<longleftrightarrow> x \<le> y"
  by (auto simp: f_le_def)

lemma f_add_mono_right:
  assumes "f_le t t'"
  shows "\<not> f_lt (f_add c t') (f_add c t)"
proof (cases c)
  case (Fin a)
  show ?thesis
  proof (cases t; cases t')
    fix x y assume "t = Fin x" "t' = Fin y"
    with assms Fin fl_mono [of "a + x" "a + y"] show ?thesis
      by (simp add: f_le_def)
  qed (use assms Fin in \<open>auto simp: f_le_def\<close>)
qed (use assms in \<open>cases t; cases t'; auto simp: f_le_def\<close>)+

lemma f_mul_mono_left:
  assumes "x \<le> y" "0 \<le> l"
  shows "f_le (f_mul (Fin x) (Fin l)) (f_mul (Fin y) (Fin l))"
  using assms by (simp add: fl_mono mult_right_mono)

lemma f_lt_trans: "f_lt a b \<Longrightarrow> f_lt b c \<Longrightarrow> f_lt a c"
  by (cases a; cases b; cases c) auto

lemma f_lt_tri: "f_lt a c \<Longrightarrow> f_lt b d \<Longrightarrow> f_lt a b \<or> a = b \<or> f_lt b a"
  by (cases a; cases b; cases c; cases d) auto

lemma f_gt_trans: "f_gt a b \<Longrightarrow> f_gt b c \<Longrightarrow> f_gt a c"
  unfolding f_gt_def by (rule f_lt_trans)

lemma f_gt_tri: "f_gt a c \<Longrightarrow> f_gt b d \<Longrightarrow> f_gt a b \<or> a = b \<or> f_gt b a"
  unfolding f_gt_def by (cases a; cases b; cases c; cases d) auto

section \<open>Properties of the running best\<close>

lemma track_append:
  "track better st (xs @ ys) = track better (track better st xs) ys"
  by (induction better st xs rule: track.induct) auto

lemma track_stay:
  "\<forall>sc x. Some (sc, x) \<in> set cs \<longrightarrow> \<not> better sc b \<Longrightarrow> track better (b, m) cs = (b, m)"
proof (induction cs)
  case Nil
  then show ?case by simp
next
  case (Cons c cs)
  have rest: "track better (b, m) cs = (b, m)"
    using Cons.prems by (intro Cons.IH) auto
  show ?case
  proof (cases c)
    case None
    with rest show ?thesis by simp
  next
    case (Some p)
    obtain sc x where p: "p = (sc, x)" by (cases p)
    have "\<not> better sc b" using Cons.prems Some p by simp
    with rest Some p show ?thesis by simp
  qed
qed

lemma track_origin:
  assumes tr: "\<And>a b c. better a b \<Longrightarrow> better b c \<Longrightarrow> better a c"
  shows "track better (b, m) cs = (b, m) \<or>
         (\<exists>sc x. Some (sc, x) \<in> set cs \<and> better sc b \<and> track better (b, m) cs = (sc, Some x))"
proof (induction cs arbitrary: b m)
  case Nil
  then show ?case by simp
next
  case (Cons c cs)
  show ?case
  proof (cases c)
    case None
    with Cons [of b m] show ?thesis by auto
  next
    case (Some p)
    obtain sc x where p: "p = (sc, x)" by (cases p)
    show ?thesis
    proof (cases "better sc b")
      case True
      from Cons [of sc "Some x"] show ?thesis
      proof
        assume "track better (sc, Some x) cs = (sc, Some x)"
        with True Some p show ?thesis by auto
      next
        assume "\<exists>sc' x'. Some (sc', x') \<in> set cs \<and> better sc' sc \<and>
                  track better (sc, Some x) cs = (sc', Some x')"
        then obtain sc' x' where h: "Some (sc', x') \<in> set cs" "better sc' sc"
          "track better (sc, Some x) cs = (sc', Some x')" by blast
        from h(2) True have "better sc' b" by (rule tr)
        with h True Some p show ?thesis by auto
      qed
    next
      case False
      with Cons [of b m] Some p show ?thesis by auto
    qed
  qed
qed

lemma track_first_best:
  assumes tr: "\<And>a b c. better a b \<Longrightarrow> better b c \<Longrightarrow> better a c"
    and tri: "\<And>a b c d. better a c \<Longrightarrow> better b d \<Longrightarrow> better a b \<or> a = b \<or> better b a"
    and beats: "better sc b"
    and pre: "\<And>sc' x'. Some (sc', x') \<in> set pre \<Longrightarrow> \<not> better sc' sc \<and> sc' \<noteq> sc"
    and post: "\<And>sc' x'. Some (sc', x') \<in> set post \<Longrightarrow> \<not> better sc' sc"
  shows "track better (b, m) (pre @ Some (sc, x) # post) = (sc, Some x)"
proof -
  obtain b1 m1 where st: "track better (b, m) pre = (b1, m1)"
    by (cases "track better (b, m) pre")
  have "better sc b1"
    using track_origin [of better b m pre, OF tr]
  proof
    assume "track better (b, m) pre = (b, m)"
    with st beats show ?thesis by simp
  next
    assume "\<exists>sc' x'. Some (sc', x') \<in> set pre \<and> better sc' b \<and>
              track better (b, m) pre = (sc', Some x')"
    then obtain sc' x' where h: "Some (sc', x') \<in> set pre" "better sc' b"
      "track better (b, m) pre = (sc', Some x')" by blast
    from pre [OF h(1)] have n: "\<not> better sc' sc" "sc' \<noteq> sc" by simp_all
    from tri [OF beats h(2)] n have "better sc sc'" by auto
    with h(3) st show ?thesis by simp
  qed
  then have "track better (b1, m1) (Some (sc, x) # post) = track better (sc, Some x) post"
    by simp
  also have "\<dots> = (sc, Some x)"
    using post by (intro track_stay) blast
  finally show ?thesis
    by (simp add: track_append st)
qed

lemma bic_loop_track:
  "bic_loop E s ns st = track f_lt st (map (\<lambda>n. yield (bic_try E s n)) ns)"
  by (induction E s ns st rule: bic_loop.induct)
     (auto simp: yield_def split: sum.splits)

lemma dic_loop_track:
  "dic_loop E s ns st = track f_gt st (map (\<lambda>n. yield (dic_try E s n)) ns)"
  by (induction E s ns st rule: dic_loop.induct)
     (auto simp: yield_def split: sum.splits)

section \<open>The search over a range of state counts\<close>

lemma search_first_best:
  assumes tr: "\<And>a b c. better a b \<Longrightarrow> better b c \<Longrightarrow> better a c"
    and tri: "\<And>a b c d. better a c \<Longrightarrow> better b d \<Longrightarrow> better a b \<or> a = b \<or> better b a"
    and rng: "lo \<le> n" "n \<le> hi"
    and cand: "f n = Some (sc, x)"
    and beats: "better sc b"
    and best: "\<forall>n' sc' x'. lo \<le> n' \<and> n' \<le> hi \<and> f n' = Some (sc', x') \<longrightarrow>
                 \<not> better sc' sc \<and> (n' < n \<longrightarrow> sc' \<noteq> sc)"
  shows "track better (b, m) (map f [lo..hi]) = (sc, Some x)"
proof -
  have split: "map f [lo..hi] = map f [lo..n - 1] @ Some (sc, x) # map f [n + 1..hi]"
    using rng cand by (simp add: upto_split3 [of lo n hi])
  have pre: "\<not> better sc' sc \<and> sc' \<noteq> sc" if "Some (sc', x') \<in> set (map f [lo..n - 1])" for sc' x'
  proof -
    from that obtain n' where "lo \<le> n'" "n' \<le> n - 1" "f n' = Some (sc', x')" by auto
    moreover from this rng have "n' \<le> hi" "n' < n" by linarith+
    ultimately show ?thesis using best by blast
  qed
  have post: "\<not> better sc' sc" if "Some (sc', x') \<in> set (map f [n + 1..hi])" for sc' x'
  proof -
    from that obtain n' where "n + 1 \<le> n'" "n' \<le> hi" "f n' = Some (sc', x')" by auto
    moreover from this rng have "lo \<le> n'" by linarith
    ultimately show ?thesis using best by blast
  qed
  show ?thesis
    unfolding split using tr tri beats pre post by (rule track_first_best)
qed

lemma search_none:
  assumes "\<forall>n sc x. lo \<le> n \<and> n \<le> hi \<and> f n = Some (sc, x) \<longrightarrow> \<not> better sc b"
  shows "track better (b, m) (map f [lo..hi]) = (b, m)"
proof (rule track_stay, intro allI impI)
  fix sc x
  assume "Some (sc, x) \<in> set (map f [lo..hi])"
  then obtain n where "lo \<le> n" "n \<le> hi" "f n = Some (sc, x)" by auto
  with assms show "\<not> better sc b" by blast
qed

lemma yield_Inr: "yield r = Some v \<longleftrightarrow> r = Inr v"
  by (cases r) (auto simp: yield_def)

section \<open>The \<open>try\<close> block of \<open>SelectorBIC\<close>\<close>

lemma spec_p_mono:
  assumes "1 \<le> a" "a \<le> b"
  shows "spec_p a M \<le> spec_p b M"
proof -
  have "a ^ 2 \<le> b ^ 2" using assms by (intro power_mono) auto
  moreover have "2 * a * int M \<le> 2 * b * int M" using assms by (intro mult_right_mono) auto
  ultimately show ?thesis unfolding spec_p_def by linarith
qed

lemma float_of_int_Inr:
  "float_of_int p = Inr v \<longleftrightarrow> v = Fin (nearest_double (of_int p)) \<and> fl (of_int p) = v"
  by (auto simp: float_of_int_def fl_def Let_def split: pyfloat.splits if_splits)

lemma bic_try_formula:
  assumes "shape (X s) = Inr (N, M)" "base_model E s n = Some m"
    and "hmm_score E m (X s) (lengths s) = Some logL"
    and "np_log E N = Inr logN" "float_of_int (spec_p n M) = Inr pf"
  shows "bic_try E s n = Inr (spec_bic_score (as_float logL) pf logN, m)"
  using assms
  by (simp add: bic_try_def spec_bic_score_def spec_p_def score_def mult.commute
        mult.left_commute)

lemma bic_try_Inr:
  assumes "bic_try E s n = Inr (sc, m)"
  shows "\<exists>N M logL logN pf. shape (X s) = Inr (N, M) \<and> base_model E s n = Some m \<and>
           hmm_score E m (X s) (lengths s) = Some logL \<and> np_log E N = Inr logN \<and>
           float_of_int (spec_p n M) = Inr pf \<and>
           sc = spec_bic_score (as_float logL) pf logN"
  using assms
  by (auto simp: bic_try_def spec_bic_score_def spec_p_def score_def Let_def mult.commute
        mult.left_commute split: sum.splits option.splits prod.splits)

lemma spec_bic_score_mono:
  assumes "x \<le> y" "0 \<le> l"
  shows "\<not> f_lt (spec_bic_score c (Fin y) (Fin l)) (spec_bic_score c (Fin x) (Fin l))"
  unfolding spec_bic_score_def
  using f_mul_mono_left [OF assms] by (rule f_add_mono_right)

lemma SelectorBIC_select_first_min:
  assumes "min_n_components s \<le> n" "n \<le> max_n_components s"
    and "bic_try E s n = Inr (sc, m)" "f_lt sc PInf"
    and "\<forall>n' sc' m'. min_n_components s \<le> n' \<and> n' \<le> max_n_components s \<and>
            bic_try E s n' = Inr (sc', m') \<longrightarrow> \<not> f_lt sc' sc \<and> (n' < n \<longrightarrow> sc' \<noteq> sc)"
  shows "SelectorBIC_select E s = Inr (Some m)"
proof -
  have "track f_lt (PInf, None) (map (\<lambda>n. yield (bic_try E s n))
          [min_n_components s..max_n_components s]) = (sc, Some m)"
    using f_lt_trans f_lt_tri assms(1,2) _ assms(4)
  proof (rule search_first_best)
    show "yield (bic_try E s n) = Some (sc, m)" using assms(3) by (simp add: yield_Inr)
    show "\<forall>n' sc' x'. min_n_components s \<le> n' \<and> n' \<le> max_n_components s \<and>
            yield (bic_try E s n') = Some (sc', x') \<longrightarrow> \<not> f_lt sc' sc \<and> (n' < n \<longrightarrow> sc' \<noteq> sc)"
      using assms(5) by (simp add: yield_Inr)
  qed
  then show ?thesis by (simp add: SelectorBIC_select_def bic_loop_track)
qed

lemma SelectorBIC_select_none:
  assumes "\<forall>n sc m. min_n_components s \<le> n \<and> n \<le> max_n_components s \<and>
            bic_try E s n = Inr (sc, m) \<longrightarrow> \<not> f_lt sc PInf"
  shows "SelectorBIC_select E s = Inr None"
proof -
  have "track f_lt (PInf, None) (map (\<lambda>n. yield (bic_try E s n))
          [min_n_components s..max_n_components s]) = (PInf, None)"
    by (rule search_none) (use assms in \<open>simp add: yield_Inr\<close>)
  then show ?thesis by (simp add: SelectorBIC_select_def bic_loop_track)
qed

lemma SelectorBIC_select_constant:
  assumes rng: "1 \<le> min_n_components s" "min_n_components s \<le> max_n_components s"
    and shp: "shape (X s) = Inr (N, M)"
    and lg: "np_log E N = Inr (Fin l)" "0 \<le> l"
    and all: "\<forall>n. min_n_components s \<le> n \<and> n \<le> max_n_components s \<longrightarrow>
            (\<exists>m. base_model E s n = Some m \<and> hmm_score E m (X s) (lengths s) = Some c)"
    and first: "bic_try E s (min_n_components s) = Inr (sc, m0)" "f_lt sc PInf"
  shows "SelectorBIC_select E s = Inr (Some m0)"
proof -
  have val: "sc' = spec_bic_score (as_float c)
      (Fin (nearest_double (of_int (spec_p n M)))) (Fin l)"
    if "min_n_components s \<le> n" "n \<le> max_n_components s" "bic_try E s n = Inr (sc', m')"
    for n sc' m'
  proof -
    from bic_try_Inr [OF that(3)] obtain N' M' logL logN' pf where
      h: "shape (X s) = Inr (N', M')" "base_model E s n = Some m'"
        "hmm_score E m' (X s) (lengths s) = Some logL" "np_log E N' = Inr logN'"
        "float_of_int (spec_p n M') = Inr pf" "sc' = spec_bic_score (as_float logL) pf logN'"
      by blast
    from h(1) shp have eq: "N' = N" "M' = M" by simp_all
    from all that(1,2) h(2,3) have "logL = c" by fastforce
    moreover from h(4) lg(1) eq have "logN' = Fin l" by simp
    moreover from h(5) eq have "pf = Fin (nearest_double (of_int (spec_p n M)))"
      by (simp add: float_of_int_Inr)
    ultimately show ?thesis using h(6) by simp
  qed
  from val [OF order_refl rng(2) first(1)]
  have sc: "sc = spec_bic_score (as_float c)
      (Fin (nearest_double (of_int (spec_p (min_n_components s) M)))) (Fin l)" .
  show ?thesis
    using order_refl rng(2) first
  proof (rule SelectorBIC_select_first_min, intro allI impI)
    fix n' sc' m'
    assume h: "min_n_components s \<le> n' \<and> n' \<le> max_n_components s \<and>
      bic_try E s n' = Inr (sc', m')"
    with val [of n' sc' m']
    have sc': "sc' = spec_bic_score (as_float c)
      (Fin (nearest_double (of_int (spec_p n' M)))) (Fin l)" by simp
    have "spec_p (min_n_components s) M \<le> spec_p n' M"
      using rng(1) h by (intro spec_p_mono) simp_all
    then have "nearest_double (of_int (spec_p (min_n_components s) M))
        \<le> nearest_double (of_int (spec_p n' M))"
      by (intro nearest_double_mono) simp
    from spec_bic_score_mono [OF this lg(2), of "as_float c"]
    have "\<not> f_lt sc' sc" unfolding sc sc' .
    moreover have "\<not> n' < min_n_components s" using h by simp
    ultimately show "\<not> f_lt sc' sc \<and> (n' < min_n_components s \<longrightarrow> sc' \<noteq> sc)"
      by simp
  qed
qed

section \<open>\<open>base_model\<close> and the \<open>try\<close> blocks\<close>

lemma base_model_Some:
  "base_model E s n = Some m \<longleftrightarrow>
     hmm_fit_ok E n (random_state s) (X s) (lengths s) \<and>
     m = \<lparr>n_components = n, seed = random_state s, trained_X = X s, trained_lengths = lengths s\<rparr>"
  by (auto simp: base_model_def GaussianHMM_fit_def)

lemma base_model_None:
  "base_model E s n = None \<longleftrightarrow> \<not> hmm_fit_ok E n (random_state s) (X s) (lengths s)"
  by (auto simp: base_model_def GaussianHMM_fit_def)

lemma bic_try_model: "bic_try E s n = Inr (sc, m) \<Longrightarrow> base_model E s n = Some m"
  by (auto simp: bic_try_def Let_def split: prod.splits option.splits sum.splits)

lemma dic_try_model: "dic_try E s n = Inr (sc, m) \<Longrightarrow> base_model E s n = Some m"
  by (auto simp: dic_try_def split: option.splits sum.splits)

lemma f_add_NaN_right: "f_add a NaN = NaN"
  by (cases a) simp_all

lemma f_sub_NaN_right: "f_sub a NaN = NaN"
  by (simp add: f_sub_def f_add_NaN_right)

section \<open>The scores against the other labels\<close>

lemma other_scores_all:
  assumes "\<forall>w\<in>set ws. \<exists>Xw lw. map_of (hwords s) w = Some (Xw, lw) \<and>
             hmm_score E m Xw lw = Some (g w)"
  shows "other_scores E s m ws = Inr (map (\<lambda>w. as_float (g w)) ws)"
  using assms by (induction ws) (auto simp: score_def)

lemma other_scores_fail:
  assumes "w \<in> set ws"
    and "map_of (hwords s) w = None \<or>
         (\<exists>Xw lw. map_of (hwords s) w = Some (Xw, lw) \<and> hmm_score E m Xw lw = None)"
  shows "\<exists>e. other_scores E s m ws = Inl e"
  using assms
proof (induction ws)
  case Nil
  then show ?case by simp
next
  case (Cons a ws)
  show ?case
  proof (cases "a = w")
    case True
    with Cons.prems(2) show ?thesis
      by (auto simp: score_def split: option.splits sum.splits)
  next
    case False
    with Cons have "\<exists>e. other_scores E s m ws = Inl e" by simp
    then show ?thesis
      by (auto split: option.splits sum.splits)
  qed
qed

lemma dic_try_formula:
  assumes "base_model E s n = Some m" "hmm_score E m (X s) (lengths s) = Some logL"
    and "\<forall>w\<in>set (other_words s). \<exists>Xw lw. map_of (hwords s) w = Some (Xw, lw) \<and>
             hmm_score E m Xw lw = Some (g w)"
  shows "dic_try E s n =
     Inr (f_sub (as_float logL) (np_mean E (map (\<lambda>w. as_float (g w)) (other_words s))), m)"
  using assms(1,2) other_scores_all [OF assms(3)]
  by (simp add: dic_try_def score_def)

lemma dic_try_disqualified:
  assumes "base_model E s n = Some m" "w \<in> set (other_words s)"
    and "map_of (hwords s) w = None \<or>
         (\<exists>Xw lw. map_of (hwords s) w = Some (Xw, lw) \<and> hmm_score E m Xw lw = None)"
  shows "\<exists>e. dic_try E s n = Inl e"
  using assms(1) other_scores_fail [OF assms(2,3)]
  by (auto simp: dic_try_def split: sum.splits)

section \<open>\<open>SelectorDIC.select\<close>\<close>

lemma SelectorDIC_select_first_max:
  assumes "min_n_components s \<le> n" "n \<le> max_n_components s"
    and "dic_try E s n = Inr (sc, m)" "f_gt sc NInf"
    and "\<forall>n' sc' m'. min_n_components s \<le> n' \<and> n' \<le> max_n_components s \<and>
            dic_try E s n' = Inr (sc', m') \<longrightarrow> \<not> f_gt sc' sc \<and> (n' < n \<longrightarrow> sc' \<noteq> sc)"
  shows "SelectorDIC_select E s = Inr (Some m)"
proof -
  have "track f_gt (NInf, None) (map (\<lambda>n. yield (dic_try E s n))
          [min_n_components s..max_n_components s]) = (sc, Some m)"
    using f_gt_trans f_gt_tri assms(1,2) _ assms(4)
  proof (rule search_first_best)
    show "yield (dic_try E s n) = Some (sc, m)" using assms(3) by (simp add: yield_Inr)
    show "\<forall>n' sc' x'. min_n_components s \<le> n' \<and> n' \<le> max_n_components s \<and>
            yield (dic_try E s n') = Some (sc', x') \<longrightarrow> \<not> f_gt sc' sc \<and> (n' < n \<longrightarrow> sc' \<noteq> sc)"
      using assms(5) by (simp add: yield_Inr)
  qed
  then show ?thesis by (simp add: SelectorDIC_select_def dic_loop_track)
qed

lemma SelectorDIC_select_none:
  assumes "\<forall>n sc m. min_n_components s \<le> n \<and> n \<le> max_n_components s \<and>
            dic_try E s n = Inr (sc, m) \<longrightarrow> \<not> f_gt sc NInf"
  shows "SelectorDIC_select E s = Inr None"
proof -
  have "track f_gt (NInf, None) (map (\<lambda>n. yield (dic_try E s n))
          [min_n_components s..max_n_components s]) = (NInf, None)"
    by (rule search_none) (use assms in \<open>simp add: yield_Inr\<close>)
  then show ?thesis by (simp add: SelectorDIC_select_def dic_loop_track)
qed

lemma SelectorDIC_select_origin:
  assumes "SelectorDIC_select E s = Inr (Some m)"
  shows "\<exists>n sc. min_n_components s \<le> n \<and> n \<le> max_n_components s \<and> dic_try E s n = Inr (sc, m)"
proof -
  let ?cs = "map (\<lambda>n. yield (dic_try E s n)) [min_n_components s..max_n_components s]"
  from assms have r: "snd (track f_gt (NInf, None) ?cs) = Some m"
    by (simp add: SelectorDIC_select_def dic_loop_track)
  have "track f_gt (NInf, None) ?cs = (NInf, None) \<or>
      (\<exists>sc x. Some (sc, x) \<in> set ?cs \<and> f_gt sc NInf \<and>
         track f_gt (NInf, None) ?cs = (sc, Some x))"
    by (rule track_origin) (rule f_gt_trans)
  with r obtain sc x where "Some (sc, x) \<in> set ?cs" "track f_gt (NInf, None) ?cs = (sc, Some x)"
    by auto
  with r have "Some (sc, m) \<in> set ?cs" by simp
  then obtain n where "min_n_components s \<le> n" "n \<le> max_n_components s"
    "yield (dic_try E s n) = Some (sc, m)" by auto
  then show ?thesis by (auto simp: yield_Inr)
qed

section \<open>The fold splitter\<close>

lemma fold_sizes_sum_aux:
  "sum_list (map (\<lambda>i. c + (if i < r then 1 else 0)) [0..<k]) = k * c + min r k"
  by (induction k) auto

lemma sum_list_fold_sizes: "0 < k \<Longrightarrow> sum_list (fold_sizes k n) = n"
  unfolding fold_sizes_def fold_sizes_sum_aux
  by (simp add: min_def less_imp_le [OF mod_less_divisor])

lemma length_fold_sizes: "length (fold_sizes k n) = k"
  by (simp add: fold_sizes_def)

lemma length_fold_tests: "length (fold_tests start szs) = length szs"
  by (induction szs arbitrary: start) auto

lemma fold_tests_bound:
  "te \<in> set (fold_tests start szs) \<Longrightarrow> i \<in> set te \<Longrightarrow> i < start + sum_list szs"
proof (induction szs arbitrary: start)
  case Nil
  then show ?case by simp
next
  case (Cons sz szs)
  from Cons.prems(1) consider "te = [start..<start + sz]" | "te \<in> set (fold_tests (start + sz) szs)"
    by auto
  then show ?case
  proof cases
    case 1
    with Cons.prems(2) show ?thesis by simp
  next
    case 2
    from Cons.IH [OF 2 Cons.prems(2)] show ?thesis by simp
  qed
qed

lemma KFold_split_length: "KFold_split k n = Inr folds \<Longrightarrow> length folds = k \<and> 2 \<le> k"
  by (auto simp: KFold_split_def length_fold_tests length_fold_sizes split: if_splits)

lemma KFold_split_ok: "2 \<le> k \<Longrightarrow> k \<le> n \<Longrightarrow> \<exists>folds. KFold_split k n = Inr folds"
  by (simp add: KFold_split_def)

lemma KFold_split_too_many: "n < k \<Longrightarrow> KFold_split k n = Inl ValueError"
  by (simp add: KFold_split_def)

lemma KFold_split_indices:
  assumes "KFold_split k n = Inr folds" "(tr, te) \<in> set folds"
  shows "list_all (\<lambda>i. i < n) tr \<and> list_all (\<lambda>i. i < n) te"
proof -
  from assms(1) have k: "0 < k" and
    folds: "folds = map (\<lambda>test. (filter (\<lambda>i. i \<notin> set test) [0..<n], test))
                       (fold_tests 0 (fold_sizes k n))"
    by (auto simp: KFold_split_def split: if_splits)
  from assms(2) folds have te: "te \<in> set (fold_tests 0 (fold_sizes k n))"
    and tr: "tr = filter (\<lambda>i. i \<notin> set te) [0..<n]" by auto
  have "i < n" if "i \<in> set te" for i
    using fold_tests_bound [OF te that] sum_list_fold_sizes [OF k, of n] by simp
  then show ?thesis
    by (auto simp: tr list_all_iff)
qed

section \<open>The folds of one candidate\<close>

lemma combine_sequences_ok:
  "list_all (\<lambda>i. i < length seqs) idx \<Longrightarrow> \<exists>r. combine_sequences idx seqs = Inr r"
  by (simp add: combine_sequences_def)

lemma cv_fold_states:
  "cv_fold E s n split scs = Inr (scs', m) \<Longrightarrow> n_components m = n"
  by (auto simp: cv_fold_def fit_def GaussianHMM_fit_def base_model_Some
           split: prod.splits option.splits sum.splits if_splits)

lemma cv_folds_states:
  "cv_folds E s n folds (scs, mv) = Inr (scs', Some m) \<Longrightarrow>
     (\<forall>m0. mv = Some m0 \<longrightarrow> n_components m0 = n) \<Longrightarrow> n_components m = n"
proof (induction folds arbitrary: scs mv)
  case Nil
  then show ?case by simp
next
  case (Cons f folds)
  from Cons.prems(1) obtain scs1 m1 where
    f: "cv_fold E s n f scs = Inr (scs1, m1)" and
    r: "cv_folds E s n folds (scs1, Some m1) = Inr (scs', Some m)"
    by (auto split: sum.splits)
  from cv_fold_states [OF f] have "n_components m1 = n" .
  with Cons.IH [OF r] show ?case by simp
qed

lemma cv_folds_bound:
  "cv_folds E s n folds (scs, Some m0) = Inr (scs', mo) \<Longrightarrow> \<exists>m. mo = Some m"
proof (induction folds arbitrary: scs m0)
  case Nil
  then show ?case by auto
next
  case (Cons f folds)
  then show ?case by (auto split: sum.splits)
qed

lemma cv_candidate_bound:
  assumes "cv_candidate E s n mv = Inr (sc, mo)"
  shows "\<exists>m. mo = Some m \<and> n_components m = n \<and> cv_candidate E s n mv' = Inr (sc, Some m)"
proof -
  from assms obtain folds scs where
    k: "KFold_split (kfold_n_splits E) (length (sequences s)) = Inr folds" and
    r: "cv_folds E s n folds ([], mv) = Inr (scs, mo)" and
    sc: "sc = (case statistics_mean scs of Inl e \<Rightarrow> PInf | Inr v \<Rightarrow> v)"
    by (auto simp: cv_candidate_def split: sum.splits)
  from KFold_split_length [OF k] obtain f rest where folds: "folds = f # rest"
    by (cases folds) auto
  from r folds obtain scs1 m1 where
    f: "cv_fold E s n f [] = Inr (scs1, m1)" and
    r1: "cv_folds E s n rest (scs1, Some m1) = Inr (scs, mo)"
    by (auto split: sum.splits)
  from cv_folds_bound [OF r1] obtain m where m: "mo = Some m" ..
  have "n_components m = n"
    using cv_folds_states [OF r1 [unfolded m]] cv_fold_states [OF f] by simp
  moreover have "cv_folds E s n folds ([], mv') = Inr (scs, Some m)"
    using f r1 m folds by simp
  then have "cv_candidate E s n mv' = Inr (sc, Some m)"
    using k sc by (simp add: cv_candidate_def)
  ultimately show ?thesis using m by simp
qed

lemma cv_yield_Some:
  "cv_yield E s n = Some (sc, m) \<longleftrightarrow> cv_candidate E s n None = Inr (sc, Some m)"
  by (auto simp: cv_yield_def split: sum.splits option.splits)

lemma cv_loop_track:
  assumes "\<forall>n\<in>set ns. \<exists>r. cv_candidate E s n None = Inr r"
  shows "cv_loop E s ns (b, bm, mv) = Inr (snd (track f_gt (b, bm) (map (cv_yield E s) ns)))"
  using assms
proof (induction ns arbitrary: b bm mv)
  case Nil
  then show ?case by simp
next
  case (Cons n ns)
  from Cons.prems obtain sc mo where c: "cv_candidate E s n None = Inr (sc, mo)" by fastforce
  from cv_candidate_bound [OF c, of mv] obtain m where
    m: "mo = Some m" "cv_candidate E s n mv = Inr (sc, Some m)" by blast
  have y: "cv_yield E s n = Some (sc, m)"
    using c m(1) by (simp add: cv_yield_Some)
  have rest: "cv_loop E s ns (b', bm', mv') =
      Inr (snd (track f_gt (b', bm') (map (cv_yield E s) ns)))" for b' bm' mv'
    using Cons.prems by (intro Cons.IH) simp
  show ?case
    by (simp add: m(2) y rest)
qed

section \<open>\<open>SelectorCV.select\<close>\<close>

lemma SelectorCV_select_search:
  assumes "3 \<le> length (sequences s)"
  shows "SelectorCV_select E s =
     cv_loop E s [min_n_components s..max_n_components s] (NInf, base_model E s 3, None)"
  using assms by (simp add: SelectorCV_select_def)

lemma SelectorCV_select_first_max:
  assumes len: "3 \<le> length (sequences s)"
    and all: "\<forall>n'. min_n_components s \<le> n' \<and> n' \<le> max_n_components s \<longrightarrow>
            (\<exists>r. cv_candidate E s n' None = Inr r)"
    and rng: "min_n_components s \<le> n" "n \<le> max_n_components s"
    and cand: "cv_candidate E s n None = Inr (sc, Some m)" "f_gt sc NInf"
    and best: "\<forall>n' sc' m'. min_n_components s \<le> n' \<and> n' \<le> max_n_components s \<and>
            cv_candidate E s n' None = Inr (sc', m') \<longrightarrow>
            \<not> f_gt sc' sc \<and> (n' < n \<longrightarrow> sc' \<noteq> sc)"
  shows "SelectorCV_select E s = Inr (Some m)"
proof -
  have "track f_gt (NInf, base_model E s 3) (map (cv_yield E s)
          [min_n_components s..max_n_components s]) = (sc, Some m)"
    using f_gt_trans f_gt_tri rng _ cand(2)
  proof (rule search_first_best)
    show "cv_yield E s n = Some (sc, m)" using cand(1) by (simp add: cv_yield_Some)
    show "\<forall>n' sc' x'. min_n_components s \<le> n' \<and> n' \<le> max_n_components s \<and>
            cv_yield E s n' = Some (sc', x') \<longrightarrow> \<not> f_gt sc' sc \<and> (n' < n \<longrightarrow> sc' \<noteq> sc)"
      using best unfolding cv_yield_Some by blast
  qed
  moreover have "cv_loop E s [min_n_components s..max_n_components s]
       (NInf, base_model E s 3, None) =
     Inr (snd (track f_gt (NInf, base_model E s 3) (map (cv_yield E s)
          [min_n_components s..max_n_components s])))"
    using all by (intro cv_loop_track) simp
  ultimately show ?thesis
    using len by (simp add: SelectorCV_select_search)
qed

lemma cv_fold_completes:
  assumes fits: "\<forall>n Xm ls. hmm_fit_ok E n (random_state s) Xm ls"
    and idx: "list_all (\<lambda>i. i < length (sequences s)) tr"
             "list_all (\<lambda>i. i < length (sequences s)) te"
  shows "\<exists>r. cv_fold E s n (tr, te) scs = Inr r"
  using fits idx
  by (simp add: cv_fold_def base_model_def GaussianHMM_fit_def fit_def combine_sequences_def
        split: sum.splits)

lemma cv_folds_complete:
  assumes fits: "\<forall>n Xm ls. hmm_fit_ok E n (random_state s) Xm ls"
    and idx: "\<forall>(tr, te)\<in>set folds. list_all (\<lambda>i. i < length (sequences s)) tr \<and>
                list_all (\<lambda>i. i < length (sequences s)) te"
  shows "\<exists>r. cv_folds E s n folds st = Inr r"
  using idx
proof (induction folds arbitrary: st)
  case Nil
  then show ?case by simp
next
  case (Cons f folds)
  obtain tr te where f: "f = (tr, te)" by (cases f)
  obtain scs mv where st: "st = (scs, mv)" by (cases st)
  from Cons.prems f have "list_all (\<lambda>i. i < length (sequences s)) tr"
    "list_all (\<lambda>i. i < length (sequences s)) te" by auto
  from cv_fold_completes [OF fits this, of n scs]
  obtain scs1 m1 where "cv_fold E s n (tr, te) scs = Inr (scs1, m1)" by auto
  moreover have "\<exists>r. cv_folds E s n folds (scs1, Some m1) = Inr r"
    using Cons.prems by (intro Cons.IH) simp
  ultimately show ?case by (simp add: f st)
qed

lemma cv_candidate_completes:
  assumes fits: "\<forall>n Xm ls. hmm_fit_ok E n (random_state s) Xm ls"
    and k: "2 \<le> kfold_n_splits E" "kfold_n_splits E \<le> length (sequences s)"
  shows "\<exists>r. cv_candidate E s n mv = Inr r"
proof -
  from KFold_split_ok [OF k] obtain folds where
    folds: "KFold_split (kfold_n_splits E) (length (sequences s)) = Inr folds" ..
  have "\<forall>(tr, te)\<in>set folds. list_all (\<lambda>i. i < length (sequences s)) tr \<and>
                list_all (\<lambda>i. i < length (sequences s)) te"
    using KFold_split_indices [OF folds] by auto
  from cv_folds_complete [OF fits this, of n "([], mv)"]
  obtain r where "cv_folds E s n folds ([], mv) = Inr r" ..
  then show ?thesis
    by (cases r) (simp add: cv_candidate_def folds)
qed

lemma SelectorCV_select_completes:
  assumes fits: "\<forall>n Xm ls. hmm_fit_ok E n (random_state s) Xm ls"
    and k: "2 \<le> kfold_n_splits E" "kfold_n_splits E \<le> length (sequences s)"
  shows "\<exists>r. SelectorCV_select E s = Inr r"
proof (cases "3 \<le> length (sequences s)")
  case True
  have "cv_loop E s [min_n_components s..max_n_components s] (NInf, base_model E s 3, None) =
     Inr (snd (track f_gt (NInf, base_model E s 3) (map (cv_yield E s)
          [min_n_components s..max_n_components s])))"
    using cv_candidate_completes [OF fits k] by (intro cv_loop_track) simp
  with True show ?thesis by (simp add: SelectorCV_select_search)
next
  case False
  then show ?thesis by (simp add: SelectorCV_select_def)
qed

lemma SelectorCV_select_too_many_folds:
  assumes "3 \<le> length (sequences s)" "length (sequences s) < kfold_n_splits E"
    and "min_n_components s \<le> max_n_components s"
  shows "SelectorCV_select E s = Inl ValueError"
proof -
  have "[min_n_components s..max_n_components s] =
      min_n_components s # [min_n_components s + 1..max_n_components s]"
    using assms(3) by (simp add: upto_rec1)
  then show ?thesis
    using assms(1,2)
    by (simp add: SelectorCV_select_search cv_candidate_def KFold_split_too_many)
qed

section \<open>Which selectors can raise\<close>

text \<open>
  \<open>SelectorConstant\<close>, \<open>SelectorBIC\<close> and \<open>SelectorDIC\<close> catch every exception of
  training and scoring; their \<open>select\<close> always returns.
\<close>

lemma guarded_selectors_return:
  "SelectorConstant_select E s = Inr (base_model E s (n_constant s))"
  "\<exists>r. SelectorBIC_select E s = Inr r"
  "\<exists>r. SelectorDIC_select E s = Inr r"
  by (simp_all add: SelectorConstant_select_def SelectorBIC_select_def SelectorDIC_select_def)

text \<open>
  In \<open>SelectorCV\<close> a candidate whose \<open>base_model\<close> fails ends the search: the
  assertion of the first fold is not guarded.
\<close>

lemma cv_candidate_training_failure:
  assumes "2 \<le> kfold_n_splits E" "kfold_n_splits E \<le> length (sequences s)"
    and "\<not> hmm_fit_ok E n (random_state s) (X s) (lengths s)"
  shows "cv_candidate E s n mv = Inl AssertionError"
proof -
  from KFold_split_ok [OF assms(1,2)] obtain folds where
    folds: "KFold_split (kfold_n_splits E) (length (sequences s)) = Inr folds" ..
  from KFold_split_length [OF folds] obtain f rest where "folds = f # rest"
    by (cases folds) auto
  moreover have "cv_fold E s n f [] = Inl AssertionError"
    using assms(3) by (simp add: cv_fold_def base_model_def GaussianHMM_fit_def split: prod.splits)
  ultimately show ?thesis
    using folds by (simp add: cv_candidate_def)
qed

lemma SelectorCV_select_first_candidate_fails:
  assumes "3 \<le> length (sequences s)"
    and "2 \<le> kfold_n_splits E" "kfold_n_splits E \<le> length (sequences s)"
    and "min_n_components s \<le> max_n_components s"
    and "\<not> hmm_fit_ok E (min_n_components s) (random_state s) (X s) (lengths s)"
  shows "SelectorCV_select E s = Inl AssertionError"
proof -
  have "[min_n_components s..max_n_components s] =
      min_n_components s # [min_n_components s + 1..max_n_components s]"
    using assms(4) by (simp add: upto_rec1)
  then show ?thesis
    using assms(1) cv_candidate_training_failure [OF assms(2,3,5)]
    by (simp add: SelectorCV_select_search)
qed

text \<open>
  The model a candidate of \<open>SelectorCV\<close> leaves in \<open>model\<close> carries the data of a fold's
  training part: it is the result of \<open>model.fit(X_train, train_lengths)\<close>.
\<close>

lemma cv_fold_trained_on:
  assumes "cv_fold E s n (tr, te) scs = Inr (scs', m)"
  shows "combine_sequences tr (sequences s) = Inr (trained_X m, trained_lengths m)"
  using assms
  by (auto simp: cv_fold_def fit_def GaussianHMM_fit_def
           split: option.splits sum.splits if_splits)

section \<open>The example corpus\<close>

lemma demo_folds:
  "KFold_split 3 (Suc (Suc (Suc (Suc 0)))) =
     Inr [([2, 3], [0, 1]), ([0, 1, 3], [2]), ([0, 1, 2], [3])]"
  by code_simp

lemma demo_cv_candidate:
  "cv_candidate env_constant demo_selector n mv =
     Inr (Fin (- 100),
          Some \<lparr>n_components = n, seed = 14,
                trained_X = PyList [[1, 2], [3, 4], [5, 6], [7, 8]], trained_lengths = [1, 2, 1]\<rparr>)"
  by (simp add: cv_candidate_def cv_fold_def base_model_def GaussianHMM_fit_def fit_def
        score_def combine_sequences_def statistics_mean_def f_sum_def
        env_constant_def demo_selector_def demo_sequences_def demo_folds)

lemma demo_fields:
  "min_n_components demo_selector = 2" "max_n_components demo_selector = 4"
  "length (sequences demo_selector) = 4"
  by (simp_all add: demo_selector_def demo_sequences_def)

section \<open>Some doubles\<close>

lemma fl_exact:
  assumes "\<bar>m\<bar> < 2 ^ 53" "- 1074 \<le> j" "j \<le> 970"
  shows "fl (of_int m * 2 powr of_int j) = Fin (of_int m * 2 powr of_int j)"
proof -
  have "\<bar>real_of_int m\<bar> < 2 ^ 53"
    using assms(1) by (metis of_int_abs of_int_less_iff of_int_numeral of_int_power)
  moreover have "2 powr real_of_int j \<le> 2 powr of_int 970"
    using assms(3) by (intro powr_mono) simp_all
  ultimately have "\<bar>real_of_int m\<bar> * 2 powr real_of_int j < 2 ^ 53 * 2 powr of_int 970"
    by (intro mult_less_le_imp_less) simp_all
  also have "\<dots> \<le> (2 :: real) ^ 1024" by (simp add: two_powr_nat)
  finally have "\<bar>of_int m * 2 powr of_int j\<bar> < (2 :: real) ^ 1024"
    by (simp add: abs_mult)
  then show ?thesis
    using nearest_double_exact [OF assms(1,2)] by (simp add: fl_finite)
qed

lemma fl_2_55: "fl 36028797018963968 = Fin 36028797018963968"
  using fl_exact [of 1 55] by simp

lemma fl_2_54: "fl 18014398509481984 = Fin 18014398509481984"
  using fl_exact [of 1 54] by simp

lemma fl_2_54_4: "fl 18014398509481988 = Fin 18014398509481988"
  using fl_exact [of 4503599627370497 2] by simp

text \<open>A tie: \<open>2^55 + 4\<close> lies halfway between two doubles and goes to the even one.\<close>

lemma fl_tie: "fl 36028797018963972 = Fin 36028797018963968"
proof -
  have "nearest_double 36028797018963972 = 36028797018963968"
    by (subst nearest_double_eval [of 55]) (simp_all add: round_half_even_def Let_def)
  then show ?thesis by (simp add: fl_finite)
qed

text \<open>An overflow: twice \<open>10^308\<close> is beyond the doubles.\<close>

lemma fl_overflow_example: "f_mul (Fin (- 2)) (Fin (- (10 ^ 308))) = PInf"
  by (simp add: fl_overflow)

section \<open>Overflow in the BIC score\<close>

text \<open>
  With the constant log-likelihood \<open>-10^308\<close> the product \<open>-2 * logL\<close> overflows to
  \<open>+inf\<close>; no candidate scores below the initial \<open>+inf\<close>, and the result is \<open>None\<close>.
\<close>

lemma f_add_PInf_left: "\<not> f_lt (f_add PInf b) PInf"
  by (cases b) simp_all

lemma f_mul_overflow: "f_mul (Fin (- 2)) (fl (- (10 ^ 308))) = PInf"
proof -
  have "nearest_double (- (10 ^ 308)) \<le> nearest_double (of_int (- 1) * 2 powr of_int 1023)"
    by (intro nearest_double_mono) simp
  also have "\<dots> = of_int (- 1) * 2 powr of_int 1023"
    by (rule nearest_double_exact) simp_all
  finally have r: "nearest_double (- (10 ^ 308)) \<le> - (2 ^ 1023)" by simp
  show ?thesis
  proof (cases "nearest_double (- (10 ^ 308)) \<le> - (2 ^ 1024)")
    case True
    then have "fl (- (10 ^ 308)) = NInf" by (simp add: fl_def Let_def)
    then show ?thesis by (simp add: f_inf_times_def)
  next
    case False
    with r have "fl (- (10 ^ 308)) = Fin (nearest_double (- (10 ^ 308)))"
      by (simp add: fl_def Let_def)
    moreover have "2 ^ 1024 \<le> - 2 * nearest_double (- (10 ^ 308))"
      using r by simp
    ultimately show ?thesis by (simp add: fl_overflow)
  qed
qed

lemma SelectorBIC_select_overflow:
  assumes "\<forall>m Xm ls. hmm_score E m Xm ls = Some (Fin (- (10 ^ 308)))"
  shows "SelectorBIC_select E s = Inr None"
proof (rule SelectorBIC_select_none, intro allI impI)
  fix n sc m
  assume "min_n_components s \<le> n \<and> n \<le> max_n_components s \<and> bic_try E s n = Inr (sc, m)"
  then obtain logL logN pf where
    "hmm_score E m (X s) (lengths s) = Some logL" "sc = spec_bic_score (as_float logL) pf logN"
    using bic_try_Inr by blast
  moreover from this assms have "logL = Fin (- (10 ^ 308))" by simp
  ultimately have "sc = f_add PInf (f_mul pf logN)"
    by (simp only: spec_bic_score_def as_float_simps f_mul_overflow)
  then show "\<not> f_lt sc PInf" by (simp add: f_add_PInf_left)
qed

section \<open>The logarithm of the examples\<close>

lemma nearest_double_numeral:
  "numeral k < (9007199254740992 :: int) \<Longrightarrow> nearest_double (numeral k) = numeral k"
  using nearest_double_of_int [of "numeral k"] by simp

lemma np_log_5: "\<exists>l. np_log env_constant 5 = Inr (Fin l) \<and> 0 \<le> l \<and> l \<le> 4"
proof -
  have "of_int 0 \<le> ln (5 :: real)" by simp
  moreover have "ln (5 :: real) \<le> of_int 4"
    using ln_le_minus_one [of "5 :: real"] by simp
  ultimately have "\<exists>r. fl (ln 5) = Fin r \<and> of_int 0 \<le> r \<and> r \<le> of_int 4"
    by (rule fl_between) simp_all
  then show ?thesis by (simp add: np_log_def env_constant_def)
qed

lemma ln_50_ge_3: "3 \<le> ln (50 :: real)"
proof -
  have "exp (3 :: real) = exp 1 ^ 3"
    by (simp add: exp_of_nat_mult [symmetric] del: exp_of_nat_mult)
  also have "\<dots> \<le> 3 ^ 3"
    by (intro power_mono exp_le) simp
  finally have "exp (3 :: real) \<le> 50" by simp
  then show ?thesis by (simp add: ln_ge_iff)
qed

lemma np_log_50: "\<exists>l. np_log env_constant 50 = Inr (Fin l) \<and> 3 \<le> l \<and> l \<le> 49"
proof -
  have "of_int 3 \<le> ln (50 :: real)" using ln_50_ge_3 by simp
  moreover have "ln (50 :: real) \<le> of_int 49"
    using ln_le_minus_one [of "50 :: real"] by simp
  ultimately have "\<exists>r. fl (ln 50) = Fin r \<and> of_int 3 \<le> r \<and> r \<le> of_int 49"
    by (rule fl_between) simp_all
  then show ?thesis by (simp add: np_log_def env_constant_def)
qed

text \<open>
  A BIC score whose parts are integers and whose logarithm lies between two bounds is a
  finite float between the corresponding bounds.
\<close>

lemma spec_bic_score_between:
  assumes l: "of_int lo \<le> p * l" "p * l \<le> of_int hi"
    and sz: "\<bar>c\<bar> < 2 ^ 50" "\<bar>lo\<bar> < 2 ^ 50" "\<bar>hi\<bar> < 2 ^ 50"
  shows "\<exists>r. spec_bic_score (Fin (of_int c)) (Fin p) (Fin l) = Fin r \<and>
           of_int (- 2 * c + lo) \<le> r \<and> r \<le> of_int (- 2 * c + hi)"
proof -
  define a b where "a = - 2 * c + lo" and "b = - 2 * c + hi"
  have c2: "fl (- 2 * of_int c) = Fin (of_int (- 2 * c))"
    using fl_of_int [of "- 2 * c"] sz(1) by simp
  have "\<bar>lo\<bar> < 2 ^ 53" "\<bar>hi\<bar> < 2 ^ 53" using sz by simp_all
  from fl_between [OF l this] obtain t where
    t: "fl (p * l) = Fin t" "of_int lo \<le> t" "t \<le> of_int hi" by auto
  define x where "x = of_int (- 2 * c) + t"
  have "of_int a \<le> x" "x \<le> of_int b"
    using t(2,3) by (simp_all add: a_def b_def x_def)
  moreover have "\<bar>a\<bar> < 2 ^ 53" "\<bar>b\<bar> < 2 ^ 53"
    using sz by (simp_all add: a_def b_def)
  ultimately obtain r where "fl x = Fin r" "of_int a \<le> r" "r \<le> of_int b"
    using fl_between by blast
  then show ?thesis
    unfolding a_def b_def x_def spec_bic_score_def using c2 t(1) by auto
qed

section \<open>Claims\<close>

text \<open>
  C1.  For a candidate state count whose training and scoring succeed, the \<open>try\<close> block of
  \<open>SelectorBIC.select\<close> yields the score \<open>-2*logL + p*np.log(N)\<close> with
  \<open>p = n^2 + 2*n*M - 1\<close>, computed in floats, where \<open>(N, M)\<close> is the shape of the
  label's matrix (provided \<open>p\<close> converts to a float); a score it yields has this form.
  The search over the inclusive range returns the model of the first candidate whose score
  is minimal among the candidates that yield a score (provided that score is below the
  initial \<open>+inf\<close>), and \<open>None\<close> when no candidate yields a score below \<open>+inf\<close>.  With a
  trainer whose log-likelihood is the same constant for every state count of a non-empty
  range of positive state counts, on a matrix whose logarithm of the row count is a finite
  float that is not negative (so with at least one row), the result is the model trained
  with the smallest state count of the range, provided its score is below \<open>+inf\<close>.
\<close>

theorem SelectorBIC_select_minimum:
  "(\<forall>n m N M logL logN pf.
      shape (X s) = Inr (N, M) \<and> base_model E s n = Some m \<and>
      hmm_score E m (X s) (lengths s) = Some logL \<and> np_log E N = Inr logN \<and>
      float_of_int (spec_p n M) = Inr pf \<longrightarrow>
      bic_try E s n = Inr (spec_bic_score (as_float logL) pf logN, m))
   \<and> (\<forall>n sc m. bic_try E s n = Inr (sc, m) \<longrightarrow>
        (\<exists>N M logL logN pf. shape (X s) = Inr (N, M) \<and> base_model E s n = Some m \<and>
           hmm_score E m (X s) (lengths s) = Some logL \<and> np_log E N = Inr logN \<and>
           float_of_int (spec_p n M) = Inr pf \<and>
           sc = spec_bic_score (as_float logL) pf logN))
   \<and> (\<forall>n sc m. min_n_components s \<le> n \<and> n \<le> max_n_components s \<and>
        bic_try E s n = Inr (sc, m) \<and> f_lt sc PInf \<and>
        (\<forall>n' sc' m'. min_n_components s \<le> n' \<and> n' \<le> max_n_components s \<and>
            bic_try E s n' = Inr (sc', m') \<longrightarrow> \<not> f_lt sc' sc \<and> (n' < n \<longrightarrow> sc' \<noteq> sc)) \<longrightarrow>
        SelectorBIC_select E s = Inr (Some m))
   \<and> ((\<forall>n sc m. min_n_components s \<le> n \<and> n \<le> max_n_components s \<and>
          bic_try E s n = Inr (sc, m) \<longrightarrow> \<not> f_lt sc PInf) \<longrightarrow>
        SelectorBIC_select E s = Inr None)
   \<and> (\<forall>c N M l sc m0.
        1 \<le> min_n_components s \<and> min_n_components s \<le> max_n_components s \<and>
        shape (X s) = Inr (N, M) \<and> np_log E N = Inr (Fin l) \<and> 0 \<le> l \<and>
        (\<forall>n. min_n_components s \<le> n \<and> n \<le> max_n_components s \<longrightarrow>
           (\<exists>m. base_model E s n = Some m \<and> hmm_score E m (X s) (lengths s) = Some c)) \<and>
        bic_try E s (min_n_components s) = Inr (sc, m0) \<and> f_lt sc PInf \<longrightarrow>
        SelectorBIC_select E s = Inr (Some m0)
        \<and> m0 = \<lparr>n_components = min_n_components s, seed = random_state s,
                 trained_X = X s, trained_lengths = lengths s\<rparr>)"
proof (intro conjI allI impI)
  fix n m N M logL logN pf
  assume "shape (X s) = Inr (N, M) \<and> base_model E s n = Some m \<and>
      hmm_score E m (X s) (lengths s) = Some logL \<and> np_log E N = Inr logN \<and>
      float_of_int (spec_p n M) = Inr pf"
  then have "shape (X s) = Inr (N, M)" "base_model E s n = Some m"
    "hmm_score E m (X s) (lengths s) = Some logL" "np_log E N = Inr logN"
    "float_of_int (spec_p n M) = Inr pf" by simp_all
  then show "bic_try E s n = Inr (spec_bic_score (as_float logL) pf logN, m)"
    by (rule bic_try_formula)
next
  fix n sc m
  assume "bic_try E s n = Inr (sc, m)"
  then show "\<exists>N M logL logN pf. shape (X s) = Inr (N, M) \<and> base_model E s n = Some m \<and>
           hmm_score E m (X s) (lengths s) = Some logL \<and> np_log E N = Inr logN \<and>
           float_of_int (spec_p n M) = Inr pf \<and>
           sc = spec_bic_score (as_float logL) pf logN"
    by (rule bic_try_Inr)
next
  fix n sc m
  assume "min_n_components s \<le> n \<and> n \<le> max_n_components s \<and>
        bic_try E s n = Inr (sc, m) \<and> f_lt sc PInf \<and>
        (\<forall>n' sc' m'. min_n_components s \<le> n' \<and> n' \<le> max_n_components s \<and>
            bic_try E s n' = Inr (sc', m') \<longrightarrow> \<not> f_lt sc' sc \<and> (n' < n \<longrightarrow> sc' \<noteq> sc))"
  then show "SelectorBIC_select E s = Inr (Some m)"
    by (intro SelectorBIC_select_first_min [of s n E sc m]) simp_all
next
  assume "\<forall>n sc m. min_n_components s \<le> n \<and> n \<le> max_n_components s \<and>
          bic_try E s n = Inr (sc, m) \<longrightarrow> \<not> f_lt sc PInf"
  then show "SelectorBIC_select E s = Inr None"
    by (rule SelectorBIC_select_none)
next
  fix c N M l sc m0
  assume h: "1 \<le> min_n_components s \<and> min_n_components s \<le> max_n_components s \<and>
        shape (X s) = Inr (N, M) \<and> np_log E N = Inr (Fin l) \<and> 0 \<le> l \<and>
        (\<forall>n. min_n_components s \<le> n \<and> n \<le> max_n_components s \<longrightarrow>
           (\<exists>m. base_model E s n = Some m \<and> hmm_score E m (X s) (lengths s) = Some c)) \<and>
        bic_try E s (min_n_components s) = Inr (sc, m0) \<and> f_lt sc PInf"
  then show "SelectorBIC_select E s = Inr (Some m0)"
    by (intro SelectorBIC_select_constant [of s N M E l c sc m0]) simp_all
  from h have "base_model E s (min_n_components s) = Some m0"
    by (simp add: bic_try_model)
  then show "m0 = \<lparr>n_components = min_n_components s, seed = random_state s,
                 trained_X = X s, trained_lengths = lengths s\<rparr>"
    by (simp add: base_model_Some)
qed

theorem SelectorBIC_select_minimum_witness:
  "SelectorBIC_select env_constant demo_selector =
     Inr (Some \<lparr>n_components = 2, seed = 14, trained_X = NdArray 2 (concat demo_sequences),
                trained_lengths = map length demo_sequences\<rparr>)
   \<and> SelectorBIC_select env_scenario scenario_selector =
     Inr (Some \<lparr>n_components = 2, seed = 14,
                trained_X = NdArray 6 (concat scenario_sequences), trained_lengths = [50]\<rparr>)"
proof (intro conjI)
  let ?m = "\<lparr>n_components = 2, seed = 14, trained_X = X demo_selector,
             trained_lengths = lengths demo_selector\<rparr>"
  from np_log_5 obtain l where
    l: "np_log env_constant 5 = Inr (Fin l)" "0 \<le> l" "l \<le> 4" by blast
  have shp: "shape (X demo_selector) = Inr (5, 2)"
    by (simp add: demo_selector_def demo_sequences_def)
  have rng: "min_n_components demo_selector = 2" "max_n_components demo_selector = 4"
    by (simp_all add: demo_selector_def)
  have all: "\<forall>n. min_n_components demo_selector \<le> n \<and> n \<le> max_n_components demo_selector \<longrightarrow>
      (\<exists>m. base_model env_constant demo_selector n = Some m \<and>
           hmm_score env_constant m (X demo_selector) (lengths demo_selector) = Some (Fin (- 100)))"
    by (simp add: base_model_def GaussianHMM_fit_def env_constant_def)
  have "bic_try env_constant demo_selector 2 =
      Inr (spec_bic_score (as_float (Fin (- 100))) (Fin 11) (Fin l), ?m)"
    using shp _ _ l(1)
    by (rule bic_try_formula)
       (simp_all add: base_model_Some float_of_int_def spec_p_def,
        simp_all add: env_constant_def demo_selector_def)
  then have two: "bic_try env_constant demo_selector 2 =
      Inr (spec_bic_score (Fin (- 100)) (Fin 11) (Fin l), ?m)"
    by simp
  have "of_int 0 \<le> 11 * l" "11 * l \<le> of_int 44"
    using l(2,3) by simp_all
  from spec_bic_score_between [OF this, of "- 100"]
  obtain r where "spec_bic_score (Fin (- 100)) (Fin 11) (Fin l) = Fin r" by auto
  then have fin: "f_lt (spec_bic_score (Fin (- 100)) (Fin 11) (Fin l)) PInf" by simp
  from SelectorBIC_select_minimum [of demo_selector env_constant]
  have "1 \<le> min_n_components demo_selector \<and>
        min_n_components demo_selector \<le> max_n_components demo_selector \<and>
        shape (X demo_selector) = Inr (5, 2) \<and> np_log env_constant 5 = Inr (Fin l) \<and>
        0 \<le> l \<and>
        (\<forall>n. min_n_components demo_selector \<le> n \<and> n \<le> max_n_components demo_selector \<longrightarrow>
           (\<exists>m. base_model env_constant demo_selector n = Some m \<and>
                hmm_score env_constant m (X demo_selector) (lengths demo_selector) =
                  Some (Fin (- 100)))) \<and>
        bic_try env_constant demo_selector (min_n_components demo_selector) =
          Inr (spec_bic_score (Fin (- 100)) (Fin 11) (Fin l), ?m) \<and>
        f_lt (spec_bic_score (Fin (- 100)) (Fin 11) (Fin l)) PInf \<longrightarrow>
        SelectorBIC_select env_constant demo_selector = Inr (Some ?m)"
    by blast
  then have "SelectorBIC_select env_constant demo_selector = Inr (Some ?m)"
    using shp all two fin l(1,2) by (simp add: rng)
  then show "SelectorBIC_select env_constant demo_selector =
     Inr (Some \<lparr>n_components = 2, seed = 14, trained_X = NdArray 2 (concat demo_sequences),
                trained_lengths = map length demo_sequences\<rparr>)"
    by (simp add: demo_selector_def)
next
  let ?m = "\<lambda>n. \<lparr>n_components = n, seed = 14, trained_X = X scenario_selector,
             trained_lengths = lengths scenario_selector\<rparr>"
  from np_log_50 obtain l where
    l0: "np_log env_constant 50 = Inr (Fin l)" and l: "3 \<le> l" "l \<le> 49" by blast
  define k where "k = \<lceil>27 * l\<rceil>"
  have k: "27 * l \<le> of_int k" "of_int k \<le> 27 * l + 1"
    unfolding k_def by linarith+
  have ksz: "0 \<le> k" "k \<le> 1324"
  proof -
    have "(0 :: real) \<le> of_int k" using k(1) l(1) by linarith
    then show "0 \<le> k" by simp
    have "of_int k \<le> (1324 :: real)" using k(2) l(2) by linarith
    then show "k \<le> 1324" by simp
  qed
  have rng: "min_n_components scenario_selector = 2" "max_n_components scenario_selector = 4"
    by (simp_all add: scenario_selector_def)
  have shp: "shape (X scenario_selector) = Inr (50, 6)"
    by (simp add: scenario_selector_def scenario_sequences_def)
  have lg: "np_log env_scenario 50 = Inr (Fin l)"
    using l0 by (simp add: np_log_def env_scenario_def)
  have cand: "bic_try env_scenario scenario_selector n =
      Inr (spec_bic_score (Fin (if n = 2 then - 100 else if n = 3 then - 80 else - 78))
             (Fin (of_int (spec_p n 6))) (Fin l), ?m n)"
    if "n = 2 \<or> n = 3 \<or> n = 4" for n
  proof -
    have "bic_try env_scenario scenario_selector n =
      Inr (spec_bic_score
             (as_float (Fin (if n = 2 then - 100 else if n = 3 then - 80 else - 78)))
             (Fin (of_int (spec_p n 6))) (Fin l), ?m n)"
      using shp
    proof (rule bic_try_formula)
      show "base_model env_scenario scenario_selector n = Some (?m n)"
        by (simp add: base_model_Some env_scenario_def env_constant_def)
           (simp add: scenario_selector_def)
      show "hmm_score env_scenario (?m n) (X scenario_selector) (lengths scenario_selector) =
          Some (Fin (if n = 2 then - 100 else if n = 3 then - 80 else - 78))"
        by (simp add: env_scenario_def env_constant_def)
      show "np_log env_scenario 50 = Inr (Fin l)" by (rule lg)
      show "float_of_int (spec_p n 6) = Inr (Fin (of_int (spec_p n 6)))"
        using that by (auto simp: float_of_int_def spec_p_def)
    qed
    then show ?thesis by simp
  qed
  have "of_int 81 \<le> 27 * l" "27 * l \<le> of_int k"
    using l k by simp_all
  from spec_bic_score_between [OF this, of "- 100"] ksz
  obtain r2 where r2: "spec_bic_score (Fin (- 100)) (Fin 27) (Fin l) = Fin r2"
    "r2 \<le> of_int (200 + k)" by auto
  have "of_int (k + 41) \<le> 44 * l" "44 * l \<le> of_int 2156"
    using l k by simp_all
  from spec_bic_score_between [OF this, of "- 80"] ksz
  obtain r3 where r3: "spec_bic_score (Fin (- 80)) (Fin 44) (Fin l) = Fin r3"
    "of_int (201 + k) \<le> r3" by auto
  have "of_int (k + 45) \<le> 63 * l" "63 * l \<le> of_int 3087"
    using l k by simp_all
  from spec_bic_score_between [OF this, of "- 78"] ksz
  obtain r4 where r4: "spec_bic_score (Fin (- 78)) (Fin 63) (Fin l) = Fin r4"
    "of_int (201 + k) \<le> r4" by auto
  have lt: "r2 < r3" "r2 < r4" using r2(2) r3(2) r4(2) by simp_all
  have two: "bic_try env_scenario scenario_selector 2 = Inr (Fin r2, ?m 2)"
    using cand [of 2] r2(1) by (simp add: spec_p_def)
  have best: "\<forall>n' sc' m'. min_n_components scenario_selector \<le> n' \<and>
      n' \<le> max_n_components scenario_selector \<and>
      bic_try env_scenario scenario_selector n' = Inr (sc', m') \<longrightarrow>
      \<not> f_lt sc' (Fin r2) \<and> (n' < 2 \<longrightarrow> sc' \<noteq> Fin r2)"
  proof (intro allI impI)
    fix n' sc' m'
    assume h: "min_n_components scenario_selector \<le> n' \<and>
      n' \<le> max_n_components scenario_selector \<and>
      bic_try env_scenario scenario_selector n' = Inr (sc', m')"
    then consider "n' = 2" | "n' = 3" | "n' = 4" unfolding rng by arith
    then show "\<not> f_lt sc' (Fin r2) \<and> (n' < 2 \<longrightarrow> sc' \<noteq> Fin r2)"
    proof cases
      case 1
      with h two have "sc' = Fin r2" by simp
      with 1 show ?thesis by simp
    next
      case 2
      with h cand [of 3] r3(1) have "sc' = Fin r3" by (simp add: spec_p_def)
      with 2 lt show ?thesis by simp
    next
      case 3
      with h cand [of 4] r4(1) have "sc' = Fin r4" by (simp add: spec_p_def)
      with 3 lt show ?thesis by simp
    qed
  qed
  have "min_n_components scenario_selector \<le> 2 \<and> 2 \<le> max_n_components scenario_selector \<and>
      bic_try env_scenario scenario_selector 2 = Inr (Fin r2, ?m 2) \<and> f_lt (Fin r2) PInf"
    using two by (simp add: rng)
  with best SelectorBIC_select_minimum [of scenario_selector env_scenario]
  have "SelectorBIC_select env_scenario scenario_selector = Inr (Some (?m 2))"
    by blast
  then show "SelectorBIC_select env_scenario scenario_selector =
     Inr (Some \<lparr>n_components = 2, seed = 14,
                trained_X = NdArray 6 (concat scenario_sequences), trained_lengths = [50]\<rparr>)"
    by (simp add: scenario_selector_def scenario_sequences_def)
qed

text \<open>
  C2.  A training failure does not stay local in \<open>SelectorCV.select\<close>: with a trainer
  that fails for four states only and the search range 3..5, the assertion that follows
  \<open>base_model\<close> in the fold loop stands outside any \<open>try\<close>, and \<open>select\<close> raises
  \<open>AssertionError\<close>.  On the same input \<open>SelectorDIC.select\<close> skips the failed candidate
  and returns the model with three states, and \<open>SelectorConstant.select\<close> returns its
  model.
\<close>

theorem SelectorCV_training_failure_escapes:
  "SelectorCV_select env_fail4 range35_selector = Inl AssertionError
   \<and> SelectorDIC_select env_fail4 range35_selector =
       Inr (Some \<lparr>n_components = 3, seed = 14, trained_X = NdArray 2 (concat demo_sequences),
                  trained_lengths = map length demo_sequences\<rparr>)
   \<and> SelectorConstant_select env_fail4 range35_selector =
       Inr (Some \<lparr>n_components = 3, seed = 14, trained_X = NdArray 2 (concat demo_sequences),
                  trained_lengths = map length demo_sequences\<rparr>)"
proof (intro conjI)
  show "SelectorCV_select env_fail4 range35_selector = Inl AssertionError"
    by (simp add: SelectorCV_select_def cv_candidate_def cv_fold_def base_model_def
          GaussianHMM_fit_def fit_def score_def combine_sequences_def statistics_mean_def
          f_sum_def f_gt_def env_fail4_def env_constant_def range35_selector_def
          demo_selector_def demo_sequences_def demo_folds)
  show "SelectorDIC_select env_fail4 range35_selector =
       Inr (Some \<lparr>n_components = 3, seed = 14, trained_X = NdArray 2 (concat demo_sequences),
                  trained_lengths = map length demo_sequences\<rparr>)"
    by (simp add: SelectorDIC_select_def dic_try_def other_words_def base_model_def
          GaussianHMM_fit_def score_def np_mean_def f_sum_def f_sub_def f_gt_def
          env_fail4_def env_constant_def range35_selector_def demo_selector_def
          demo_words_def demo_hwords_def)
  show "SelectorConstant_select env_fail4 range35_selector =
       Inr (Some \<lparr>n_components = 3, seed = 14, trained_X = NdArray 2 (concat demo_sequences),
                  trained_lengths = map length demo_sequences\<rparr>)"
    by (simp add: SelectorConstant_select_def base_model_def GaussianHMM_fit_def
          env_fail4_def env_constant_def range35_selector_def demo_selector_def)
qed

text \<open>
  C3.  A candidate without a usable fold score is not given a losing score by
  \<open>SelectorCV.select\<close>: \<open>statistics.mean\<close> raises on the empty list and the handler
  sets the score to \<open>+inf\<close>, which wins the comparison \<open>score > best_score\<close>.  With
  models of three states that cannot score, the candidate 2 has mean \<open>-10\<close>, the
  candidate 3 has no fold score, and the result has three states.
\<close>

theorem SelectorCV_no_folds_wins:
  "cv_candidate env_noscore3 range23_selector 2 None =
     Inr (Fin (- 10),
          Some \<lparr>n_components = 2, seed = 14,
                trained_X = PyList [[1, 2], [3, 4], [5, 6], [7, 8]], trained_lengths = [1, 2, 1]\<rparr>)
   \<and> cv_candidate env_noscore3 range23_selector 3 None =
     Inr (PInf,
          Some \<lparr>n_components = 3, seed = 14,
                trained_X = PyList [[1, 2], [3, 4], [5, 6], [7, 8]], trained_lengths = [1, 2, 1]\<rparr>)
   \<and> SelectorCV_select env_noscore3 range23_selector =
     Inr (Some \<lparr>n_components = 3, seed = 14,
                trained_X = PyList [[1, 2], [3, 4], [5, 6], [7, 8]], trained_lengths = [1, 2, 1]\<rparr>)"
  by (simp add: SelectorCV_select_def cv_candidate_def cv_fold_def base_model_def
        GaussianHMM_fit_def fit_def score_def combine_sequences_def statistics_mean_def
        f_sum_def f_gt_def env_noscore3_def env_constant_def range23_selector_def
        demo_selector_def demo_sequences_def demo_folds)

text \<open>
  C4 (as amended).  \<open>SelectorCV.select\<close> calls \<open>KFold()\<close> without arguments: the fold
  count is the library's default whatever the number of sequences, and nothing clamps it.
  For a label that passes the guard of three sequences, the split yields exactly that many
  folds when the default lies between 2 and the number of sequences (so always when the
  default is 2 or 3), and the search then completes if no fit fails; when the default
  exceeds the number of sequences and the range is not empty, \<open>select\<close> raises
  \<open>ValueError\<close>.
\<close>

theorem SelectorCV_default_fold_count:
  assumes "3 \<le> length (sequences s)"
  shows "(2 \<le> kfold_n_splits E \<and> kfold_n_splits E \<le> length (sequences s) \<longrightarrow>
            (\<exists>folds. KFold_split (kfold_n_splits E) (length (sequences s)) = Inr folds \<and>
                     length folds = kfold_n_splits E) \<and>
            ((\<forall>n Xm ls. hmm_fit_ok E n (random_state s) Xm ls) \<longrightarrow>
               (\<exists>r. SelectorCV_select E s = Inr r)))
       \<and> (length (sequences s) < kfold_n_splits E \<and>
            min_n_components s \<le> max_n_components s \<longrightarrow>
            SelectorCV_select E s = Inl ValueError)"
proof (intro conjI impI)
  assume k: "2 \<le> kfold_n_splits E \<and> kfold_n_splits E \<le> length (sequences s)"
  then obtain folds where
    "KFold_split (kfold_n_splits E) (length (sequences s)) = Inr folds"
    using KFold_split_ok by blast
  then show "\<exists>folds. KFold_split (kfold_n_splits E) (length (sequences s)) = Inr folds \<and>
                     length folds = kfold_n_splits E"
    using KFold_split_length by blast
  assume "\<forall>n Xm ls. hmm_fit_ok E n (random_state s) Xm ls"
  then show "\<exists>r. SelectorCV_select E s = Inr r"
    using k by (intro SelectorCV_select_completes) simp_all
next
  assume "length (sequences s) < kfold_n_splits E \<and>
            min_n_components s \<le> max_n_components s"
  with assms show "SelectorCV_select E s = Inl ValueError"
    by (intro SelectorCV_select_too_many_folds) simp_all
qed

theorem SelectorCV_default_fold_count_witness:
  "KFold_split (kfold_n_splits env_constant) (length (sequences demo_selector)) =
     Inr [([2, 3], [0, 1]), ([0, 1, 3], [2]), ([0, 1, 2], [3])]
   \<and> (\<exists>r. SelectorCV_select env_constant demo_selector = Inr r)
   \<and> SelectorCV_select (env_constant\<lparr>kfold_n_splits := 7\<rparr>) demo_selector = Inl ValueError"
proof -
  have len: "3 \<le> length (sequences demo_selector)"
    by (simp add: demo_fields)
  have k: "2 \<le> kfold_n_splits env_constant \<and>
      kfold_n_splits env_constant \<le> length (sequences demo_selector)"
    by (simp add: demo_fields env_constant_def)
  have fits: "\<forall>n Xm ls. hmm_fit_ok env_constant n (random_state demo_selector) Xm ls"
    by (simp add: env_constant_def)
  have "\<exists>r. SelectorCV_select env_constant demo_selector = Inr r"
    using SelectorCV_default_fold_count [OF len, of env_constant] k fits by blast
  moreover have "SelectorCV_select (env_constant\<lparr>kfold_n_splits := 7\<rparr>) demo_selector =
      Inl ValueError"
    using SelectorCV_default_fold_count [OF len, of "env_constant\<lparr>kfold_n_splits := 7\<rparr>"]
    by (simp add: demo_fields)
  moreover have "KFold_split (kfold_n_splits env_constant) (length (sequences demo_selector)) =
     Inr [([2, 3], [0, 1]), ([0, 1, 3], [2]), ([0, 1, 2], [3])]"
    using demo_folds by (simp add: demo_fields env_constant_def eval_nat_numeral)
  ultimately show ?thesis by simp
qed

theorem SelectorCV_five_folds_counterexample:
  "3 \<le> length (sequences demo_selector) \<and> length (sequences demo_selector) < 5
   \<and> kfold_n_splits env_five_folds = 5
   \<and> \<not> kfold_n_splits env_five_folds \<le> length (sequences demo_selector)
   \<and> KFold_split (kfold_n_splits env_five_folds) (length (sequences demo_selector)) =
       Inl ValueError
   \<and> SelectorCV_select env_five_folds demo_selector = Inl ValueError"
  by (simp add: SelectorCV_select_def cv_candidate_def KFold_split_def demo_fields
        env_five_folds_def env_constant_def)

text \<open>
  C5.  The model that \<open>SelectorCV.select\<close> returns after a search is the object bound to
  \<open>model\<close> when the fold loop of the winning candidate ends: \<open>base_model\<close> has trained
  it on the full matrix, and \<open>model.fit(X_train, train_lengths)\<close> has then fitted it
  again on the training part of the last fold.  On the example the last fold trains on
  the sequences 0, 1 and 2: the result is trained on four of the five rows.
\<close>

theorem SelectorCV_returns_fold_model:
  "SelectorCV_select env_constant demo_selector =
     Inr (Some \<lparr>n_components = 2, seed = 14,
                trained_X = PyList [[1, 2], [3, 4], [5, 6], [7, 8]], trained_lengths = [1, 2, 1]\<rparr>)
   \<and> combine_sequences [0, 1, 2] (sequences demo_selector) =
       Inr (PyList [[1, 2], [3, 4], [5, 6], [7, 8]], [1, 2, 1])
   \<and> X demo_selector = NdArray 2 [[1, 2], [3, 4], [5, 6], [7, 8], [9, 10]]
   \<and> lengths demo_selector = [1, 2, 1, 1]"
proof -
  have "SelectorCV_select env_constant demo_selector =
     Inr (Some \<lparr>n_components = 2, seed = 14,
                trained_X = PyList [[1, 2], [3, 4], [5, 6], [7, 8]], trained_lengths = [1, 2, 1]\<rparr>)"
    by (simp add: SelectorCV_select_def demo_fields demo_cv_candidate f_gt_def)
  then show ?thesis
    by (simp add: combine_sequences_def demo_selector_def demo_sequences_def)
qed

text \<open>
  C6.  For a candidate whose training, own scoring and scoring against every other label
  succeed, the \<open>try\<close> block of \<open>SelectorDIC.select\<close> yields the log-likelihood on the
  target label's own matrix and lengths minus \<open>np.mean\<close> of the model's scores on the
  other labels' matrices and lengths as stored in the corpus, in the order of the corpus
  (for fewer than eight scores: their sum from left to right divided by their count, all
  in floats).  A candidate for
  which the lookup or the scoring of a single other label fails yields no score at all,
  and its model is never the result.  The search returns the model of the first candidate
  whose score is maximal among the candidates that yield a score (provided that score is
  above the initial \<open>-inf\<close>), and \<open>None\<close> when no candidate yields a score above
  \<open>-inf\<close>.
\<close>

theorem SelectorDIC_select_maximum:
  "(\<forall>n m logL g. base_model E s n = Some m \<and> hmm_score E m (X s) (lengths s) = Some logL \<and>
       (\<forall>w\<in>set (other_words s). \<exists>Xw lw. map_of (hwords s) w = Some (Xw, lw) \<and>
             hmm_score E m Xw lw = Some (g w)) \<longrightarrow>
       dic_try E s n =
         Inr (f_sub (as_float logL)
                (np_mean E (map (\<lambda>w. as_float (g w)) (other_words s))), m))
   \<and> (\<forall>n m w. base_model E s n = Some m \<and> w \<in> set (other_words s) \<and>
        (map_of (hwords s) w = None \<or>
         (\<exists>Xw lw. map_of (hwords s) w = Some (Xw, lw) \<and> hmm_score E m Xw lw = None)) \<longrightarrow>
        (\<exists>e. dic_try E s n = Inl e) \<and> SelectorDIC_select E s \<noteq> Inr (Some m))
   \<and> (\<forall>n sc m. min_n_components s \<le> n \<and> n \<le> max_n_components s \<and>
        dic_try E s n = Inr (sc, m) \<and> f_gt sc NInf \<and>
        (\<forall>n' sc' m'. min_n_components s \<le> n' \<and> n' \<le> max_n_components s \<and>
            dic_try E s n' = Inr (sc', m') \<longrightarrow> \<not> f_gt sc' sc \<and> (n' < n \<longrightarrow> sc' \<noteq> sc)) \<longrightarrow>
        SelectorDIC_select E s = Inr (Some m))
   \<and> ((\<forall>n sc m. min_n_components s \<le> n \<and> n \<le> max_n_components s \<and>
          dic_try E s n = Inr (sc, m) \<longrightarrow> \<not> f_gt sc NInf) \<longrightarrow>
        SelectorDIC_select E s = Inr None)"
proof (intro conjI allI impI)
  fix n m logL g
  assume "base_model E s n = Some m \<and> hmm_score E m (X s) (lengths s) = Some logL \<and>
       (\<forall>w\<in>set (other_words s). \<exists>Xw lw. map_of (hwords s) w = Some (Xw, lw) \<and>
             hmm_score E m Xw lw = Some (g w))"
  then show "dic_try E s n =
         Inr (f_sub (as_float logL)
                (np_mean E (map (\<lambda>w. as_float (g w)) (other_words s))), m)"
    by (intro dic_try_formula) simp_all
next
  fix n m w
  assume h: "base_model E s n = Some m \<and> w \<in> set (other_words s) \<and>
        (map_of (hwords s) w = None \<or>
         (\<exists>Xw lw. map_of (hwords s) w = Some (Xw, lw) \<and> hmm_score E m Xw lw = None))"
  then show failed: "\<exists>e. dic_try E s n = Inl e"
    by (intro dic_try_disqualified [of E s n m w]) simp_all
  show "SelectorDIC_select E s \<noteq> Inr (Some m)"
  proof
    assume "SelectorDIC_select E s = Inr (Some m)"
    then obtain n' sc where n': "dic_try E s n' = Inr (sc, m)"
      using SelectorDIC_select_origin by blast
    then have "base_model E s n' = Some m" by (rule dic_try_model)
    with h have "n' = n" by (auto simp: base_model_Some)
    with n' failed show False by auto
  qed
next
  fix n sc m
  assume "min_n_components s \<le> n \<and> n \<le> max_n_components s \<and>
        dic_try E s n = Inr (sc, m) \<and> f_gt sc NInf \<and>
        (\<forall>n' sc' m'. min_n_components s \<le> n' \<and> n' \<le> max_n_components s \<and>
            dic_try E s n' = Inr (sc', m') \<longrightarrow> \<not> f_gt sc' sc \<and> (n' < n \<longrightarrow> sc' \<noteq> sc))"
  then show "SelectorDIC_select E s = Inr (Some m)"
    by (intro SelectorDIC_select_first_max [of s n E sc m]) simp_all
next
  assume "\<forall>n sc m. min_n_components s \<le> n \<and> n \<le> max_n_components s \<and>
          dic_try E s n = Inr (sc, m) \<longrightarrow> \<not> f_gt sc NInf"
  then show "SelectorDIC_select E s = Inr None"
    by (rule SelectorDIC_select_none)
qed

theorem SelectorDIC_select_maximum_witness:
  "dic_try env_dic trio_selector 2 =
     Inr (Fin 4, \<lparr>n_components = 2, seed = 14, trained_X = NdArray 2 (concat demo_sequences),
                  trained_lengths = map length demo_sequences\<rparr>)
   \<and> dic_try env_dic trio_selector 3 =
     Inr (Fin 3, \<lparr>n_components = 3, seed = 14, trained_X = NdArray 2 (concat demo_sequences),
                  trained_lengths = map length demo_sequences\<rparr>)
   \<and> (\<exists>e. dic_try env_dic trio_selector 4 = Inl e)
   \<and> SelectorDIC_select env_dic trio_selector =
       Inr (Some \<lparr>n_components = 2, seed = 14, trained_X = NdArray 2 (concat demo_sequences),
                  trained_lengths = map length demo_sequences\<rparr>)"
proof -
  let ?m = "\<lambda>n. \<lparr>n_components = n, seed = 14, trained_X = NdArray 2 (concat demo_sequences),
                  trained_lengths = map length demo_sequences\<rparr>"
  let ?own = "\<lambda>n :: int. if n = 2 then Fin 18014398509481988 else if n = 3 then Fin 3
                      else Fin (- 10)"
  let ?g = "\<lambda>n :: int. \<lambda>w. if n = 2 then (if w = ''MARY'' then Fin 36028797018963968 else Fin 4)
                      else Fin 0"
  note main = SelectorDIC_select_maximum [of env_dic trio_selector]
  have rng: "min_n_components trio_selector = 2" "max_n_components trio_selector = 4"
    by (simp_all add: trio_selector_def demo_selector_def)
  have bm: "base_model env_dic trio_selector n = Some (?m n)" for n
    by (simp add: base_model_Some env_dic_def env_constant_def trio_selector_def
          demo_selector_def)
  have ow: "other_words trio_selector = [''MARY'', ''SUE'']"
    by (simp add: other_words_def trio_selector_def demo_selector_def demo_words_def)
  have hw: "map_of (hwords trio_selector) ''MARY'' =
        Some (NdArray 2 (concat other_sequences), map length other_sequences)"
      "map_of (hwords trio_selector) ''SUE'' =
        Some (NdArray 2 (concat third_sequences), map length third_sequences)"
    by (simp_all add: trio_selector_def demo_selector_def demo_hwords_def)
  have own: "hmm_score env_dic (?m n) (X trio_selector) (lengths trio_selector) = Some (?own n)"
    for n
    by (simp add: env_dic_def env_constant_def trio_selector_def demo_selector_def
          demo_sequences_def other_sequences_def third_sequences_def)
  have mary: "hmm_score env_dic (?m n) (NdArray 2 (concat other_sequences))
        (map length other_sequences) = Some (?g n ''MARY'')" for n
    by (simp add: env_dic_def env_constant_def demo_sequences_def other_sequences_def
          third_sequences_def)
  have sue: "hmm_score env_dic (?m n) (NdArray 2 (concat third_sequences))
        (map length third_sequences) = (if n = 2 \<or> n = 3 then Some (?g n ''SUE'') else None)"
    for n
    by (simp add: env_dic_def env_constant_def demo_sequences_def other_sequences_def
          third_sequences_def)
  have val: "dic_try env_dic trio_selector n =
      Inr (f_sub (as_float (?own n))
             (np_mean env_dic (map (\<lambda>w. as_float (?g n w)) (other_words trio_selector))),
           ?m n)"
    if "n = 2 \<or> n = 3" for n
  proof -
    have "\<forall>w\<in>set (other_words trio_selector). \<exists>Xw lw.
        map_of (hwords trio_selector) w = Some (Xw, lw) \<and>
        hmm_score env_dic (?m n) Xw lw = Some (?g n w)"
      using that hw mary [of n] sue [of n] by (auto simp: ow)
    with bm [of n] own [of n]
    show ?thesis
      by (intro main [THEN conjunct1, rule_format, where g = "?g n"]) simp
  qed
  have two: "dic_try env_dic trio_selector 2 = Inr (Fin 4, ?m 2)"
    using val [of 2]
    by (simp add: ow np_mean_def f_sum_def f_sub_def fl_2_55 fl_tie fl_2_54 fl_2_54_4)
  have three: "dic_try env_dic trio_selector 3 = Inr (Fin 3, ?m 3)"
    using val [of 3] by (simp add: ow np_mean_def f_sum_def f_sub_def)
  have four: "\<exists>e. dic_try env_dic trio_selector 4 = Inl e"
  proof -
    have "''SUE'' \<in> set (other_words trio_selector)" by (simp add: ow)
    moreover have "\<exists>Xw lw. map_of (hwords trio_selector) ''SUE'' = Some (Xw, lw) \<and>
        hmm_score env_dic (?m 4) Xw lw = None"
      using hw(2) sue [of 4] by simp
    ultimately show ?thesis using main bm [of 4] by blast
  qed
  have best: "\<forall>n' sc' m'. min_n_components trio_selector \<le> n' \<and>
      n' \<le> max_n_components trio_selector \<and>
      dic_try env_dic trio_selector n' = Inr (sc', m') \<longrightarrow>
      \<not> f_gt sc' (Fin 4) \<and> (n' < 2 \<longrightarrow> sc' \<noteq> Fin 4)"
  proof (intro allI impI)
    fix n' sc' m'
    assume h: "min_n_components trio_selector \<le> n' \<and>
      n' \<le> max_n_components trio_selector \<and>
      dic_try env_dic trio_selector n' = Inr (sc', m')"
    then consider "n' = 2" | "n' = 3" | "n' = 4" unfolding rng by arith
    then show "\<not> f_gt sc' (Fin 4) \<and> (n' < 2 \<longrightarrow> sc' \<noteq> Fin 4)"
    proof cases
      case 1
      with h two have "sc' = Fin 4" by simp
      with 1 show ?thesis by (simp add: f_gt_def)
    next
      case 2
      with h three have "sc' = Fin 3" by simp
      with 2 show ?thesis by (simp add: f_gt_def)
    next
      case 3
      with h four show ?thesis by auto
    qed
  qed
  have "min_n_components trio_selector \<le> 2 \<and> 2 \<le> max_n_components trio_selector \<and>
      dic_try env_dic trio_selector 2 = Inr (Fin 4, ?m 2) \<and> f_gt (Fin 4) NInf"
    using two by (simp add: rng f_gt_def)
  with best main have "SelectorDIC_select env_dic trio_selector = Inr (Some (?m 2))"
    by blast
  with two three four show ?thesis by simp
qed

text \<open>
  C7.  With fewer than three sequences \<open>SelectorCV.select\<close> returns what \<open>base_model\<close>
  gives for three states, that is, when that fit converges, the model with three states
  trained on the label's full matrix and lengths.  Neither the fold splitter nor the
  search range has any influence on the result: no fold split and no candidate search takes
  place.
\<close>

theorem SelectorCV_select_fallback:
  assumes "length (sequences s) < 3"
  shows "SelectorCV_select E s = Inr (base_model E s 3)
    \<and> (hmm_fit_ok E 3 (random_state s) (X s) (lengths s) \<longrightarrow>
         SelectorCV_select E s =
           Inr (Some \<lparr>n_components = 3, seed = random_state s, trained_X = X s,
                      trained_lengths = lengths s\<rparr>))
    \<and> (\<forall>k lo hi. SelectorCV_select (E\<lparr>kfold_n_splits := k\<rparr>)
                   (s\<lparr>min_n_components := lo, max_n_components := hi\<rparr>) =
                 SelectorCV_select E s)"
proof -
  have a: "SelectorCV_select E s = Inr (base_model E s 3)" for E
    using assms by (simp add: SelectorCV_select_def)
  have b: "SelectorCV_select E (s\<lparr>min_n_components := lo, max_n_components := hi\<rparr>) =
      Inr (base_model E s 3)" for E lo hi
    using assms by (simp add: SelectorCV_select_def base_model_def)
  have c: "base_model (E\<lparr>kfold_n_splits := k\<rparr>) s 3 = base_model E s 3" for k
    by (simp add: base_model_def GaussianHMM_fit_def)
  show ?thesis
    by (simp add: a b c base_model_def GaussianHMM_fit_def)
qed

theorem SelectorCV_select_fallback_witness:
  "length (sequences short_selector) = 2
   \<and> SelectorCV_select env_five_folds short_selector =
       Inr (Some \<lparr>n_components = 3, seed = 14, trained_X = NdArray 2 [[1, 2], [3, 4], [5, 6]],
                  trained_lengths = [1, 2]\<rparr>)"
proof -
  have len: "length (sequences short_selector) < 3"
    by (simp add: short_selector_def demo_sequences_def)
  have ok: "hmm_fit_ok env_five_folds 3 (random_state short_selector) (X short_selector)
      (lengths short_selector)"
    by (simp add: env_five_folds_def env_constant_def)
  from SelectorCV_select_fallback [OF len, of env_five_folds] ok
  have "SelectorCV_select env_five_folds short_selector =
           Inr (Some \<lparr>n_components = 3, seed = random_state short_selector,
                      trained_X = X short_selector,
                      trained_lengths = lengths short_selector\<rparr>)"
    by blast
  then show ?thesis
    by (simp add: short_selector_def demo_selector_def demo_sequences_def)
qed

text \<open>
  C8.  In \<open>SelectorBIC.select\<close>, \<open>SelectorDIC.select\<close> and \<open>SelectorCV.select\<close> (when
  every candidate of its search completes), let two state counts \<open>n1 < n2\<close> of the range
  yield the same score, let that score beat the initial running best (\<open>+inf\<close> for BIC,
  \<open>-inf\<close> for DIC and CV), let no candidate yield a strictly better score and no
  candidate before \<open>n1\<close> the same score.  Then \<open>select\<close> returns the model of \<open>n1\<close>,
  which has \<open>n1\<close> states, and not the model of \<open>n2\<close>: the later equal score fails the
  strict comparison.
\<close>

theorem first_best_wins_ties:
  "(\<forall>n1 n2 sc m1 m2.
      min_n_components s \<le> n1 \<and> n1 < n2 \<and> n2 \<le> max_n_components s \<and>
      bic_try E s n1 = Inr (sc, m1) \<and> bic_try E s n2 = Inr (sc, m2) \<and> f_lt sc PInf \<and>
      (\<forall>n' sc' m'. min_n_components s \<le> n' \<and> n' \<le> max_n_components s \<and>
          bic_try E s n' = Inr (sc', m') \<longrightarrow> \<not> f_lt sc' sc \<and> (n' < n1 \<longrightarrow> sc' \<noteq> sc)) \<longrightarrow>
      SelectorBIC_select E s = Inr (Some m1) \<and> n_components m1 = n1 \<and> n_components m2 = n2)
   \<and> (\<forall>n1 n2 sc m1 m2.
      min_n_components s \<le> n1 \<and> n1 < n2 \<and> n2 \<le> max_n_components s \<and>
      dic_try E s n1 = Inr (sc, m1) \<and> dic_try E s n2 = Inr (sc, m2) \<and> f_gt sc NInf \<and>
      (\<forall>n' sc' m'. min_n_components s \<le> n' \<and> n' \<le> max_n_components s \<and>
          dic_try E s n' = Inr (sc', m') \<longrightarrow> \<not> f_gt sc' sc \<and> (n' < n1 \<longrightarrow> sc' \<noteq> sc)) \<longrightarrow>
      SelectorDIC_select E s = Inr (Some m1) \<and> n_components m1 = n1 \<and> n_components m2 = n2)
   \<and> (\<forall>n1 n2 sc m1 m2.
      3 \<le> length (sequences s) \<and>
      (\<forall>n'. min_n_components s \<le> n' \<and> n' \<le> max_n_components s \<longrightarrow>
          (\<exists>r. cv_candidate E s n' None = Inr r)) \<and>
      min_n_components s \<le> n1 \<and> n1 < n2 \<and> n2 \<le> max_n_components s \<and>
      cv_candidate E s n1 None = Inr (sc, Some m1) \<and>
      cv_candidate E s n2 None = Inr (sc, Some m2) \<and> f_gt sc NInf \<and>
      (\<forall>n' sc' m'. min_n_components s \<le> n' \<and> n' \<le> max_n_components s \<and>
          cv_candidate E s n' None = Inr (sc', m') \<longrightarrow>
          \<not> f_gt sc' sc \<and> (n' < n1 \<longrightarrow> sc' \<noteq> sc)) \<longrightarrow>
      SelectorCV_select E s = Inr (Some m1) \<and> n_components m1 = n1 \<and> n_components m2 = n2)"
proof (intro conjI allI impI)
  fix n1 n2 sc m1 m2
  assume h: "min_n_components s \<le> n1 \<and> n1 < n2 \<and> n2 \<le> max_n_components s \<and>
      bic_try E s n1 = Inr (sc, m1) \<and> bic_try E s n2 = Inr (sc, m2) \<and> f_lt sc PInf \<and>
      (\<forall>n' sc' m'. min_n_components s \<le> n' \<and> n' \<le> max_n_components s \<and>
          bic_try E s n' = Inr (sc', m') \<longrightarrow> \<not> f_lt sc' sc \<and> (n' < n1 \<longrightarrow> sc' \<noteq> sc))"
  then show "SelectorBIC_select E s = Inr (Some m1)"
    by (intro SelectorBIC_select_first_min [of s n1 E sc m1]) simp_all
  from h have "base_model E s n1 = Some m1" "base_model E s n2 = Some m2"
    by (simp_all add: bic_try_model)
  then show "n_components m1 = n1" "n_components m2 = n2"
    by (simp_all add: base_model_Some)
next
  fix n1 n2 sc m1 m2
  assume h: "min_n_components s \<le> n1 \<and> n1 < n2 \<and> n2 \<le> max_n_components s \<and>
      dic_try E s n1 = Inr (sc, m1) \<and> dic_try E s n2 = Inr (sc, m2) \<and> f_gt sc NInf \<and>
      (\<forall>n' sc' m'. min_n_components s \<le> n' \<and> n' \<le> max_n_components s \<and>
          dic_try E s n' = Inr (sc', m') \<longrightarrow> \<not> f_gt sc' sc \<and> (n' < n1 \<longrightarrow> sc' \<noteq> sc))"
  then show "SelectorDIC_select E s = Inr (Some m1)"
    by (intro SelectorDIC_select_first_max [of s n1 E sc m1]) simp_all
  from h have "base_model E s n1 = Some m1" "base_model E s n2 = Some m2"
    by (simp_all add: dic_try_model)
  then show "n_components m1 = n1" "n_components m2 = n2"
    by (simp_all add: base_model_Some)
next
  fix n1 n2 sc m1 m2
  assume h: "3 \<le> length (sequences s) \<and>
      (\<forall>n'. min_n_components s \<le> n' \<and> n' \<le> max_n_components s \<longrightarrow>
          (\<exists>r. cv_candidate E s n' None = Inr r)) \<and>
      min_n_components s \<le> n1 \<and> n1 < n2 \<and> n2 \<le> max_n_components s \<and>
      cv_candidate E s n1 None = Inr (sc, Some m1) \<and>
      cv_candidate E s n2 None = Inr (sc, Some m2) \<and> f_gt sc NInf \<and>
      (\<forall>n' sc' m'. min_n_components s \<le> n' \<and> n' \<le> max_n_components s \<and>
          cv_candidate E s n' None = Inr (sc', m') \<longrightarrow>
          \<not> f_gt sc' sc \<and> (n' < n1 \<longrightarrow> sc' \<noteq> sc))"
  then show "SelectorCV_select E s = Inr (Some m1)"
    by (intro SelectorCV_select_first_max [of s E n1 sc m1]) simp_all
  from h have c: "cv_candidate E s n1 None = Inr (sc, Some m1)"
    "cv_candidate E s n2 None = Inr (sc, Some m2)" by simp_all
  from cv_candidate_bound [OF c(1)] show "n_components m1 = n1" by simp
  from cv_candidate_bound [OF c(2)] show "n_components m2 = n2" by simp
qed

theorem first_best_wins_ties_witness:
  "SelectorBIC_select env_constant one_row_selector =
     Inr (Some \<lparr>n_components = 2, seed = 14, trained_X = NdArray 2 [[1, 2]],
                trained_lengths = [1]\<rparr>)
   \<and> SelectorDIC_select env_constant demo_selector =
     Inr (Some \<lparr>n_components = 2, seed = 14, trained_X = NdArray 2 (concat demo_sequences),
                trained_lengths = map length demo_sequences\<rparr>)
   \<and> SelectorCV_select env_constant demo_selector =
     Inr (Some \<lparr>n_components = 2, seed = 14,
                trained_X = PyList [[1, 2], [3, 4], [5, 6], [7, 8]],
                trained_lengths = [1, 2, 1]\<rparr>)"
proof (intro conjI)
  let ?m = "\<lambda>n. \<lparr>n_components = n, seed = 14, trained_X = NdArray 2 [[1, 2]],
                  trained_lengths = [1]\<rparr>"
  have rng1: "min_n_components one_row_selector = 2" "max_n_components one_row_selector = 4"
    by (simp_all add: one_row_selector_def demo_selector_def)
  have bic: "bic_try env_constant one_row_selector n = Inr (Fin 200, ?m n)"
    if "n = 2 \<or> n = 3 \<or> n = 4" for n
    using that
    by (auto simp: bic_try_def base_model_def GaussianHMM_fit_def score_def
          np_log_def float_of_int_def env_constant_def one_row_selector_def demo_selector_def
          demo_sequences_def)
  have best: "\<forall>n' sc' m'. min_n_components one_row_selector \<le> n' \<and>
          n' \<le> max_n_components one_row_selector \<and>
          bic_try env_constant one_row_selector n' = Inr (sc', m') \<longrightarrow>
          \<not> f_lt sc' (Fin 200) \<and> (n' < 2 \<longrightarrow> sc' \<noteq> Fin 200)"
  proof (intro allI impI)
    fix n' sc' m'
    assume h: "min_n_components one_row_selector \<le> n' \<and>
          n' \<le> max_n_components one_row_selector \<and>
          bic_try env_constant one_row_selector n' = Inr (sc', m')"
    then have "n' = 2 \<or> n' = 3 \<or> n' = 4" unfolding rng1 by arith
    from bic [OF this] h have "sc' = Fin 200" by simp
    with h show "\<not> f_lt sc' (Fin 200) \<and> (n' < 2 \<longrightarrow> sc' \<noteq> Fin 200)"
      by (simp add: rng1)
  qed
  from first_best_wins_ties [of one_row_selector env_constant]
  have "min_n_components one_row_selector \<le> 2 \<and> (2::int) < 3 \<and>
      3 \<le> max_n_components one_row_selector \<and>
      bic_try env_constant one_row_selector 2 = Inr (Fin 200, ?m 2) \<and>
      bic_try env_constant one_row_selector 3 = Inr (Fin 200, ?m 3) \<and>
      f_lt (Fin 200) PInf \<and>
      (\<forall>n' sc' m'. min_n_components one_row_selector \<le> n' \<and>
          n' \<le> max_n_components one_row_selector \<and>
          bic_try env_constant one_row_selector n' = Inr (sc', m') \<longrightarrow>
          \<not> f_lt sc' (Fin 200) \<and> (n' < 2 \<longrightarrow> sc' \<noteq> Fin 200)) \<longrightarrow>
      SelectorBIC_select env_constant one_row_selector = Inr (Some (?m 2))"
    by blast
  with best show "SelectorBIC_select env_constant one_row_selector = Inr (Some (?m 2))"
    by (simp add: bic rng1)
next
  let ?m = "\<lambda>n. \<lparr>n_components = n, seed = 14, trained_X = NdArray 2 (concat demo_sequences),
                  trained_lengths = map length demo_sequences\<rparr>"
  have dic: "dic_try env_constant demo_selector n = Inr (Fin 0, ?m n)" for n
    by (simp add: dic_try_def other_words_def base_model_def GaussianHMM_fit_def score_def
          np_mean_def f_sum_def f_sub_def env_constant_def demo_selector_def
          demo_words_def demo_hwords_def)
  from first_best_wins_ties [of demo_selector env_constant]
  have "min_n_components demo_selector \<le> 2 \<and> (2::int) < 3 \<and>
      3 \<le> max_n_components demo_selector \<and>
      dic_try env_constant demo_selector 2 = Inr (Fin 0, ?m 2) \<and>
      dic_try env_constant demo_selector 3 = Inr (Fin 0, ?m 3) \<and>
      f_gt (Fin 0) NInf \<and>
      (\<forall>n' sc' m'. min_n_components demo_selector \<le> n' \<and>
          n' \<le> max_n_components demo_selector \<and>
          dic_try env_constant demo_selector n' = Inr (sc', m') \<longrightarrow>
          \<not> f_gt sc' (Fin 0) \<and> (n' < 2 \<longrightarrow> sc' \<noteq> Fin 0)) \<longrightarrow>
      SelectorDIC_select env_constant demo_selector = Inr (Some (?m 2))"
    by blast
  then show "SelectorDIC_select env_constant demo_selector = Inr (Some (?m 2))"
    by (simp add: dic demo_fields f_gt_def)
next
  let ?m = "\<lambda>n. \<lparr>n_components = n, seed = 14,
                trained_X = PyList [[1, 2], [3, 4], [5, 6], [7, 8]],
                trained_lengths = [1, 2, 1]\<rparr>"
  from first_best_wins_ties [of demo_selector env_constant]
  have "3 \<le> length (sequences demo_selector) \<and>
      (\<forall>n'. min_n_components demo_selector \<le> n' \<and> n' \<le> max_n_components demo_selector \<longrightarrow>
          (\<exists>r. cv_candidate env_constant demo_selector n' None = Inr r)) \<and>
      min_n_components demo_selector \<le> 2 \<and> (2::int) < 3 \<and>
      3 \<le> max_n_components demo_selector \<and>
      cv_candidate env_constant demo_selector 2 None = Inr (Fin (- 100), Some (?m 2)) \<and>
      cv_candidate env_constant demo_selector 3 None = Inr (Fin (- 100), Some (?m 3)) \<and>
      f_gt (Fin (- 100)) NInf \<and>
      (\<forall>n' sc' m'. min_n_components demo_selector \<le> n' \<and>
          n' \<le> max_n_components demo_selector \<and>
          cv_candidate env_constant demo_selector n' None = Inr (sc', m') \<longrightarrow>
          \<not> f_gt sc' (Fin (- 100)) \<and> (n' < 2 \<longrightarrow> sc' \<noteq> Fin (- 100))) \<longrightarrow>
      SelectorCV_select env_constant demo_selector = Inr (Some (?m 2))"
    by blast
  then show "SelectorCV_select env_constant demo_selector = Inr (Some (?m 2))"
    by (simp add: demo_cv_candidate demo_fields f_gt_def)
qed

text \<open>
  C9.  \<open>ModelSelector.__init__\<close>, which the four strategies inherit unchanged, raises
  \<open>KeyError\<close> when the target label is missing from the dictionary of sequences or from
  the dictionary of matrices and lengths, so no selector object exists on which \<open>select\<close>
  could be called; when the label is a key of both, the object is constructed.
\<close>

theorem ModelSelector_init_KeyError:
  "(word \<notin> fst ` set ws \<or> word \<notin> fst ` set hws \<longrightarrow>
      ModelSelector_init ws hws word n_const min_n max_n rs vb = Inl KeyError)
   \<and> (word \<in> fst ` set ws \<and> word \<in> fst ` set hws \<longrightarrow>
      (\<exists>sel. ModelSelector_init ws hws word n_const min_n max_n rs vb = Inr sel \<and>
             this_word sel = word \<and> map_of ws word = Some (sequences sel) \<and>
             map_of hws word = Some (X sel, lengths sel)))"
proof (intro conjI impI)
  assume "word \<notin> fst ` set ws \<or> word \<notin> fst ` set hws"
  then have "map_of ws word = None \<or> map_of hws word = None"
    by (simp add: map_of_eq_None_iff)
  then show "ModelSelector_init ws hws word n_const min_n max_n rs vb = Inl KeyError"
    by (auto simp: ModelSelector_init_def split: option.splits)
next
  assume "word \<in> fst ` set ws \<and> word \<in> fst ` set hws"
  then have "map_of ws word \<noteq> None" "map_of hws word \<noteq> None"
    by (simp_all add: map_of_eq_None_iff)
  then show "\<exists>sel. ModelSelector_init ws hws word n_const min_n max_n rs vb = Inr sel \<and>
             this_word sel = word \<and> map_of ws word = Some (sequences sel) \<and>
             map_of hws word = Some (X sel, lengths sel)"
    by (auto simp: ModelSelector_init_def split: option.splits)
qed

theorem ModelSelector_init_KeyError_witness:
  "ModelSelector_init demo_words demo_hwords ''PETER'' 3 2 4 14 False = Inl KeyError
   \<and> ModelSelector_init demo_words (tl demo_hwords) ''JOHN'' 3 2 4 14 False = Inl KeyError
   \<and> ModelSelector_init demo_words demo_hwords ''JOHN'' 3 2 4 14 False = Inr demo_selector"
proof -
  have "ModelSelector_init demo_words demo_hwords ''PETER'' 3 2 4 14 False = Inl KeyError"
    using ModelSelector_init_KeyError [of "''PETER''" demo_words demo_hwords 3 2 4 14 False]
    by (simp add: demo_words_def)
  moreover
  have "ModelSelector_init demo_words (tl demo_hwords) ''JOHN'' 3 2 4 14 False = Inl KeyError"
    using ModelSelector_init_KeyError [of "''JOHN''" demo_words "tl demo_hwords" 3 2 4 14 False]
    by (simp add: demo_hwords_def)
  moreover
  have "ModelSelector_init demo_words demo_hwords ''JOHN'' 3 2 4 14 False = Inr demo_selector"
    by (simp add: ModelSelector_init_def demo_words_def demo_hwords_def demo_selector_def)
  ultimately show ?thesis by simp
qed

text \<open>
  C10.  When the corpus holds no label other than the target label, the mean over the
  empty list of other-label scores is \<open>NaN\<close>, so every candidate that yields a score
  yields \<open>NaN\<close>; \<open>NaN > best_score\<close> is false, and \<open>SelectorDIC.select\<close> returns
  \<open>None\<close> for every search range.
\<close>

theorem SelectorDIC_only_label:
  assumes "set (map fst (words s)) \<subseteq> {this_word s}"
  shows "(\<forall>n sc m. dic_try E s n = Inr (sc, m) \<longrightarrow> sc = NaN) \<and>
         SelectorDIC_select E s = Inr None"
proof -
  have none: "other_words s = []"
    using assms by (auto simp: other_words_def filter_empty_conv)
  have nan: "sc = NaN" if "dic_try E s n = Inr (sc, m)" for n sc m
    using that
    by (auto simp: dic_try_def none np_mean_def f_sub_NaN_right split: option.splits sum.splits)
  have "SelectorDIC_select E s = Inr None"
  proof (rule SelectorDIC_select_none, intro allI impI)
    fix n sc m
    assume "min_n_components s \<le> n \<and> n \<le> max_n_components s \<and> dic_try E s n = Inr (sc, m)"
    then have "sc = NaN" using nan by blast
    then show "\<not> f_gt sc NInf" by (simp add: f_gt_def)
  qed
  with nan show ?thesis by blast
qed

theorem SelectorDIC_only_label_witness:
  "dic_try env_constant solo_selector 2 =
     Inr (NaN, \<lparr>n_components = 2, seed = 14, trained_X = NdArray 2 (concat demo_sequences),
                trained_lengths = map length demo_sequences\<rparr>)
   \<and> SelectorDIC_select env_constant solo_selector = Inr None"
proof -
  have "set (map fst (words solo_selector)) \<subseteq> {this_word solo_selector}"
    by (simp add: solo_selector_def demo_selector_def)
  from SelectorDIC_only_label [OF this, of env_constant]
  have "SelectorDIC_select env_constant solo_selector = Inr None" by simp
  moreover have "dic_try env_constant solo_selector 2 =
     Inr (NaN, \<lparr>n_components = 2, seed = 14, trained_X = NdArray 2 (concat demo_sequences),
                trained_lengths = map length demo_sequences\<rparr>)"
    by (simp add: dic_try_def base_model_def GaussianHMM_fit_def score_def other_words_def
          np_mean_def f_sub_def env_constant_def solo_selector_def demo_selector_def)
  ultimately show ?thesis by simp
qed

end
